theory Spec2Isabelle
  imports Complex_Main "HOL-Library.Word" "HOL-Library.Log_Nat"
begin

unbundle bit_operations_syntax

section \<open>The seeded bit generator\<close>

text \<open>
  \<^verbatim>\<open>hash_to_poster.py\<close> keeps the generator state in a Python closure variable
  \<^verbatim>\<open>state\<close>, an unbounded Python integer that the code confines to 32 bits by masking
  with \<^verbatim>\<open>MASK32\<close>.  The model keeps it as an \<^typ>\<open>int\<close> and writes the masks out
  exactly where the source has them.  Python's \<^verbatim>\<open><<\<close> and \<^verbatim>\<open>>>\<close> on integers are
  \<^const>\<open>push_bit\<close> and \<^const>\<open>drop_bit\<close>, \<^verbatim>\<open>^\<close> is \<open>XOR\<close> and \<^verbatim>\<open>&\<close> is \<open>AND\<close>.
\<close>

definition MASK32 :: int where
  "MASK32 = 0xFFFFFFFF"

text \<open>
  The closure is a record: the captured variable \<^verbatim>\<open>state\<close>, and a ghost counter
  \<open>calls\<close> of how often \<^verbatim>\<open>next_u32\<close> has been called on it.  The counter is not in
  the source; nothing in the model reads it, it only lets draw counts be stated.
\<close>

record rng =
  state :: int
  calls :: nat

text \<open>One call of \<^verbatim>\<open>next_u32\<close> on a state (source lines 19 to 22).\<close>

definition xorshift :: "int \<Rightarrow> int" where
  "xorshift s0 =
     (let s1 = s0 XOR (push_bit 13 s0 AND MASK32);
          s2 = s1 XOR drop_bit 17 s1;
          s3 = s2 XOR (push_bit 5 s2 AND MASK32);
          s4 = s3 AND MASK32
      in s4)"

text \<open>\<^verbatim>\<open>next_u32()\<close>: the returned value and the closure after the call.\<close>

definition next_u32 :: "rng \<Rightarrow> int \<times> rng" where
  "next_u32 g =
     (let s = xorshift (state g)
      in (s, \<lparr>state = s, calls = Suc (calls g)\<rparr>))"

text \<open>
  The specification's wording of one draw, for comparison with the source: three steps,
  each of them an XOR with a shifted copy followed by a mask to 32 bits.
\<close>

definition spec_step_l13 :: "int \<Rightarrow> int" where
  "spec_step_l13 x = (x XOR push_bit 13 x) AND MASK32"

definition spec_step_r17 :: "int \<Rightarrow> int" where
  "spec_step_r17 x = (x XOR drop_bit 17 x) AND MASK32"

definition spec_step_l5 :: "int \<Rightarrow> int" where
  "spec_step_l5 x = (x XOR push_bit 5 x) AND MASK32"

definition spec_draw :: "int \<Rightarrow> int" where
  "spec_draw x = spec_step_l5 (spec_step_r17 (spec_step_l13 x))"

text \<open>A state is a 32-bit unsigned value.\<close>

definition u32 :: "int \<Rightarrow> bool" where
  "u32 x \<longleftrightarrow> 0 \<le> x \<and> x < 4294967296"

text \<open>A generator whose state is a non-zero 32-bit value.\<close>

definition live :: "rng \<Rightarrow> bool" where
  "live g \<longleftrightarrow> u32 (state g) \<and> state g \<noteq> 0"

section \<open>Library functions the script calls\<close>

text \<open>
  \<^verbatim>\<open>hashlib.sha256\<close>, \<^verbatim>\<open>math.sin\<close> and \<^verbatim>\<open>math.cos\<close> are not code of the repository.
  They are parameters of the model: every theorem below holds for any digest function and
  any pair of trigonometric functions.
\<close>

type_synonym byte = "8 word"

type_synonym float = rat

record platform =
  sha256_digest :: "byte list \<Rightarrow> byte list"
  math_sin :: "float \<Rightarrow> float"
  math_cos :: "float \<Rightarrow> float"

text \<open>
  A Python \<^verbatim>\<open>str\<close> is a sequence of Unicode code points, numbers below \<open>0x110000\<close>.
  \<^verbatim>\<open>seed.encode("utf-8")\<close> (source line 13) raises \<^verbatim>\<open>UnicodeEncodeError\<close> when the text
  holds a surrogate (\<open>0xD800\<close> to \<open>0xDFFF\<close>), which is what the command line delivers for a
  byte that is not UTF-8; otherwise it yields one to four bytes for each code point.
\<close>

datatype py_error = ZeroDivisionError | OverflowError | UnicodeEncodeError

definition encodable :: "nat \<Rightarrow> bool" where
  "encodable cp \<longleftrightarrow> cp < 0xD800 \<or> (0xDFFF < cp \<and> cp < 0x110000)"

definition utf8_of :: "nat \<Rightarrow> string" where
  "utf8_of cp =
     (if cp < 0x80 then [char_of cp]
      else if cp < 0x800 then [char_of (0xC0 + cp div 64), char_of (0x80 + cp mod 64)]
      else if cp < 0x10000
        then [char_of (0xE0 + cp div 4096), char_of (0x80 + cp div 64 mod 64),
              char_of (0x80 + cp mod 64)]
        else [char_of (0xF0 + cp div 262144), char_of (0x80 + cp div 4096 mod 64),
              char_of (0x80 + cp div 64 mod 64), char_of (0x80 + cp mod 64)])"

definition str_to_utf8 :: "nat list \<Rightarrow> py_error + string" where
  "str_to_utf8 s =
     (if list_all encodable s then Inr (concat (map utf8_of s)) else Inl UnicodeEncodeError)"

text \<open>
  From here on a seed is the byte string \<^const>\<open>str_to_utf8\<close> has produced: \<^verbatim>\<open>make_rng\<close>
  below is given the encoded seed, and \<open>encode_utf8\<close> only reads its bytes as 8-bit words.
  The encoding step and its failure are the first thing \<open>svg_parts\<close> does.
\<close>

definition encode_utf8 :: "string \<Rightarrow> byte list" where
  "encode_utf8 s = map of_char s"

text \<open>\<^verbatim>\<open>int.from_bytes(bs, "big")\<close>.\<close>

definition from_bytes_big :: "byte list \<Rightarrow> int" where
  "from_bytes_big bs = foldl (\<lambda>acc b. acc * 256 + uint b) 0 bs"

text \<open>
  \<^verbatim>\<open>make_rng\<close> (source lines 11 to 25): the closure it returns, before any call.
  Python's \<^verbatim>\<open>x or 1\<close> is \<open>1\<close> exactly when \<open>x\<close> is \<open>0\<close>.
\<close>

definition make_rng :: "platform \<Rightarrow> string \<Rightarrow> rng" where
  "make_rng P seed =
     (let seed_bytes = sha256_digest P (encode_utf8 seed);
          v = from_bytes_big (take 4 seed_bytes)
      in \<lparr>state = (if v = 0 then 1 else v), calls = 0\<rparr>)"

text \<open>The closure after \<open>n\<close> further calls of \<^verbatim>\<open>next_u32\<close>.\<close>

fun draws :: "nat \<Rightarrow> rng \<Rightarrow> rng" where
  "draws 0 g = g"
| "draws (Suc n) g = draws n (snd (next_u32 g))"

section \<open>Floating point\<close>

text \<open>
  Python's \<^verbatim>\<open>float\<close> is IEEE 754 binary64.  A finite double is a rational number, and
  every operation of the script is the exact operation followed by rounding to the
  nearest double, ties to even.  The model is this rounding to 53 significant bits on
  \<^typ>\<open>rat\<close>, with the exponent range left unbounded: it agrees with binary64 as long
  as no intermediate result leaves the normal range (no overflow to infinity, no
  subnormal result), which is the case for every canvas of sensible size.  Negative zero
  is not distinguished from zero.
\<close>

text \<open>Rounding a rational to the nearest integer, ties to even.\<close>

definition rne :: "rat \<Rightarrow> int" where
  "rne q =
     (let n = \<lfloor>q\<rfloor>; d = q - of_int n
      in if d < 1 / 2 then n
         else if 1 / 2 < d then n + 1
         else if even n then n else n + 1)"

text \<open>The binary exponent \<open>\<lfloor>log\<^sub>2 \<bar>x\<bar>\<rfloor>\<close> of a non-zero rational.\<close>

definition ilog2 :: "rat \<Rightarrow> int" where
  "ilog2 x =
     (let (p, q) = quotient_of \<bar>x\<bar>; e = bitlen p - bitlen q
      in if power_int 2 e \<le> \<bar>x\<bar> then e else e - 1)"

definition rnd :: "rat \<Rightarrow> float" where
  "rnd x =
     (if x = 0 then 0
      else let u = power_int 2 (ilog2 x - 52) in of_int (rne (x / u)) * u)"

text \<open>A decimal literal of the source text, read as Python reads it.\<close>

definition lit :: "rat \<Rightarrow> float" where
  "lit q = rnd q"

definition fadd :: "float \<Rightarrow> float \<Rightarrow> float" where
  "fadd a b = rnd (a + b)"

definition fsub :: "float \<Rightarrow> float \<Rightarrow> float" where
  "fsub a b = rnd (a - b)"

definition fmul :: "float \<Rightarrow> float \<Rightarrow> float" where
  "fmul a b = rnd (a * b)"

text \<open>Float division; every divisor in the script is a non-zero constant.\<close>

definition fdiv :: "float \<Rightarrow> float \<Rightarrow> float" where
  "fdiv a b = rnd (a / b)"

text \<open>
  The largest double is just below \<open>2 ^ 1024\<close>: a result that rounds to \<open>2 ^ 1024\<close> or
  beyond does not fit.
\<close>

definition overflows :: "float \<Rightarrow> bool" where
  "overflows x \<longleftrightarrow> 2 ^ 1024 \<le> \<bar>x\<bar>"

text \<open>
  The value of the implicit conversion of an \<^verbatim>\<open>int\<close> operand in mixed arithmetic, for an
  integer that fits a double.  The script converts the draws (below \<open>2 ^ 32\<close>), small
  constants, the grid indices (each below the cell count, so that an index that does not
  fit is met only after more than \<open>2 ^ 1024\<close> cells) and the canvas size; the conversion of
  the size is checked by \<open>checked_float\<close>.
\<close>

definition float_of_int :: "int \<Rightarrow> float" where
  "float_of_int n = rnd (of_int n)"

text \<open>
  The conversion as Python performs it: \<^verbatim>\<open>OverflowError\<close> (int too large to convert to
  float) when the integer does not fit.
\<close>

definition checked_float :: "int \<Rightarrow> py_error + float" where
  "checked_float n =
     (if overflows (float_of_int n) then Inl OverflowError else Inr (float_of_int n))"

text \<open>
  \<^verbatim>\<open>a / b\<close> on two Python integers: the correctly rounded quotient, \<^verbatim>\<open>ZeroDivisionError\<close>
  for a zero divisor, \<^verbatim>\<open>OverflowError\<close> (integer division result too large for a float)
  when the quotient does not fit.
\<close>

definition int_truediv :: "int \<Rightarrow> int \<Rightarrow> py_error + float" where
  "int_truediv a b =
     (if b = 0 then Inl ZeroDivisionError
      else if overflows (rnd (of_int a / of_int b)) then Inl OverflowError
      else Inr (rnd (of_int a / of_int b)))"

definition math_pi :: float where
  "math_pi = 884279719003555 / 281474976710656"

section \<open>Formatting\<close>

definition digit_char :: "nat \<Rightarrow> char" where
  "digit_char d = char_of (48 + d)"

fun digits :: "nat \<Rightarrow> string" where
  "digits n = (if n < 10 then [digit_char n] else digits (n div 10) @ [digit_char (n mod 10)])"

declare digits.simps [simp del]

text \<open>\<^verbatim>\<open>str(n)\<close> for an integer, as an f-string field \<^verbatim>\<open>{n}\<close> prints it.\<close>

definition str_int :: "int \<Rightarrow> string" where
  "str_int n = (if n < 0 then ''-'' @ digits (nat (- n)) else digits (nat n))"

text \<open>
  \<^verbatim>\<open>f(x)\<close>, that is \<^verbatim>\<open>f"{x:.2f}"\<close> (source lines 52 to 54): the value rounded to
  hundredths, ties to even on the exact binary value, printed with its sign, its integer
  part and exactly two fractional digits.
\<close>

definition f :: "float \<Rightarrow> string" where
  "f x =
     (let n = nat (rne (\<bar>x\<bar> * 100))
      in (if x < 0 then ''-'' else '''') @ digits (n div 100) @ ''.''
           @ [digit_char (n mod 100 div 10), digit_char (n mod 10)])"

section \<open>Drawing numbers and colours\<close>

text \<open>\<^verbatim>\<open>rand01\<close> (source lines 28 to 30).\<close>

definition rand01 :: "rng \<Rightarrow> float \<times> rng" where
  "rand01 g = (let (u, g') = next_u32 g in (fdiv (float_of_int u) (lit 4294967296), g'))"

text \<open>
  \<^verbatim>\<open>rgb\<close> (source lines 33 to 49), in three parts: the three channel draws, the optional
  brightening, and the colour text.
\<close>

definition rgb_draw :: "rng \<Rightarrow> (int \<times> int \<times> int) \<times> rng" where
  "rgb_draw g0 =
     (let (a, g1) = next_u32 g0;
          r = a AND 255;
          (b, g2) = next_u32 g1;
          g = drop_bit 8 b AND 255;
          (c, g3) = next_u32 g2;
          b = drop_bit 16 c AND 255
      in ((r, g, b), g3))"

definition brighten_rgb :: "bool \<Rightarrow> int \<times> int \<times> int \<Rightarrow> int \<times> int \<times> int" where
  "brighten_rgb brighten c =
     (case c of (r, g, b) \<Rightarrow>
        if brighten \<and> r + g + b < 180
        then (let bump = (180 - (r + g + b)) div 3 + 1
              in (min 255 (r + bump), min 255 (g + bump), min 255 (b + bump)))
        else (r, g, b))"

definition rgb_text :: "int \<times> int \<times> int \<Rightarrow> string" where
  "rgb_text c =
     (case c of (r, g, b) \<Rightarrow>
        ''rgb('' @ str_int r @ '', '' @ str_int g @ '', '' @ str_int b @ '')'')"

definition rgb :: "rng \<Rightarrow> bool \<Rightarrow> string \<times> rng" where
  "rgb g0 brighten = (let (c, g3) = rgb_draw g0 in (rgb_text (brighten_rgb brighten c), g3))"

section \<open>The scene composer\<close>

text \<open>
  The grid shapes.  The source keeps the values below in local variables and prints them
  at once; the model names them so that they can be talked about, and prints them with
  \<open>shape_svg\<close>, which is the source's f-string.
\<close>

datatype shape =
    Rect (s_cx: float) (s_cy: float) (s_w: float) (s_h: float) (s_fill: string) (s_alpha: float)
  | Circle (s_cx: float) (s_cy: float) (s_r: float) (s_fill: string) (s_alpha: float)

fun shape_svg :: "shape \<Rightarrow> string" where
  \<open>shape_svg (Rect cx cy w h col alpha) =
     ''<rect x="'' @ f (fsub cx (fdiv w (float_of_int 2)))
       @ ''" y="'' @ f (fsub cy (fdiv h (float_of_int 2)))
       @ ''" width="'' @ f w @ ''" height="'' @ f h @ ''" ''
       @ ''fill="'' @ col @ ''" fill-opacity="'' @ f alpha @ ''"/>''\<close>
| \<open>shape_svg (Circle cx cy r col alpha) =
     ''<circle cx="'' @ f cx @ ''" cy="'' @ f cy @ ''" r="'' @ f r @ ''" ''
       @ ''fill="'' @ col @ ''" fill-opacity="'' @ f alpha @ ''"/>''\<close>

text \<open>
  The body of the inner loop (source lines 72 to 105) for the cell in column \<open>gx\<close> of
  row \<open>gy\<close>: \<open>None\<close> when the cell is skipped by \<^verbatim>\<open>continue\<close>.
\<close>

definition cell_shape :: "float \<Rightarrow> int \<Rightarrow> int \<Rightarrow> rng \<Rightarrow> shape option \<times> rng" where
  "cell_shape cell gy gx g0 =
     (let (p, g1) = rand01 g0
      in if p < lit (15 / 100) then (None, g1)
         else
           (let x0 = fmul (float_of_int gx) cell;
                y0 = fmul (float_of_int gy) cell;
                (jx, g2) = rand01 g1;
                cx = fadd x0 (fmul cell (fadd (lit (1 / 2)) (fmul (fsub jx (lit (1 / 2))) (lit (1 / 2)))));
                (jy, g3) = rand01 g2;
                cy = fadd y0 (fmul cell (fadd (lit (1 / 2)) (fmul (fsub jy (lit (1 / 2))) (lit (1 / 2)))));
                (col, g4) = rgb g3 True;
                (a, g5) = rand01 g4;
                alpha = fadd (lit (25 / 100)) (fmul a (lit (65 / 100)));
                (k, g6) = next_u32 g5
            in if k mod 2 = 0
               then (let (rw, g7) = rand01 g6;
                         w = fmul cell (fadd (lit (25 / 100)) (fmul rw (lit (7 / 10))));
                         (rh, g8) = rand01 g7;
                         h = fmul cell (fadd (lit (25 / 100)) (fmul rh (lit (7 / 10))))
                     in (Some (Rect cx cy w h col alpha), g8))
               else (let (rr, g7) = rand01 g6;
                         r = fmul cell (fadd (lit (12 / 100)) (fmul rr (lit (35 / 100))))
                     in (Some (Circle cx cy r col alpha), g7))))"

text \<open>\<^verbatim>\<open>range(n)\<close>.\<close>

definition py_range :: "int \<Rightarrow> int list" where
  "py_range n = map int [0..<nat n]"

text \<open>The inner loop over the columns of one row, and the outer loop over the rows.\<close>

fun row_loop :: "float \<Rightarrow> int \<Rightarrow> int list \<Rightarrow> rng \<Rightarrow> shape option list \<times> rng" where
  "row_loop cell gy [] g = ([], g)"
| "row_loop cell gy (gx # gxs) g =
     (let (s, g') = cell_shape cell gy gx g;
          (ss, g'') = row_loop cell gy gxs g'
      in (s # ss, g''))"

fun grid_loop :: "float \<Rightarrow> int list \<Rightarrow> int list \<Rightarrow> rng \<Rightarrow> shape option list \<times> rng" where
  "grid_loop cell [] gxs g = ([], g)"
| "grid_loop cell (gy # gys) gxs g =
     (let (row, g') = row_loop cell gy gxs g;
          (rows, g'') = grid_loop cell gys gxs g'
      in (row @ rows, g''))"

text \<open>
  The grid phase (source lines 68 to 105): one entry per cell in drawing order, \<open>None\<close>
  for a skipped cell, and the generator afterwards.
\<close>

definition grid_phase :: "float \<Rightarrow> int \<Rightarrow> rng \<Rightarrow> shape option list \<times> rng" where
  "grid_phase cell cells g = grid_loop cell (py_range cells) (py_range cells) g"

text \<open>The shapes a list of cells emits: the skipped cells emit nothing.\<close>

definition emitted :: "shape option list \<Rightarrow> shape list" where
  "emitted cs = List.map_filter (\<lambda>c. c) cs"

text \<open>One ray of the radial motif (source lines 117 to 129).\<close>

record ray =
  r_ang :: float
  r_jitter :: float
  r_len :: float
  r_x1 :: float
  r_y1 :: float
  r_x2 :: float
  r_y2 :: float
  r_stroke :: string
  r_width :: int

definition ray_svg :: "ray \<Rightarrow> string" where
  \<open>ray_svg l =
     ''<line x1="'' @ f (r_x1 l) @ ''" y1="'' @ f (r_y1 l)
       @ ''" x2="'' @ f (r_x2 l) @ ''" y2="'' @ f (r_y2 l) @ ''" ''
       @ ''stroke="'' @ r_stroke l @ ''" stroke-width="'' @ f (float_of_int (r_width l)) @ ''" ''
       @ ''stroke-opacity="0.8" stroke-linecap="round"/>''\<close>

definition ray_step ::
  "platform \<Rightarrow> float \<Rightarrow> float \<Rightarrow> float \<Rightarrow> float \<Rightarrow> int \<Rightarrow> int \<Rightarrow> rng \<Rightarrow> ray \<times> rng" where
  "ray_step P cx cy inner outer rays i g0 =
     (let (j, g1) = rand01 g0;
          jit = fmul (fsub j (lit (1 / 2))) (lit (12 / 100));
          ang = fadd (fdiv (fmul (fmul (float_of_int 2) math_pi) (float_of_int i))
                           (float_of_int rays)) jit;
          (v, g2) = rand01 g1;
          r2 = fmul outer (fadd (lit (8 / 10)) (fmul (lit (4 / 10)) v));
          x1 = fadd cx (fmul inner (math_cos P ang));
          y1 = fadd cy (fmul inner (math_sin P ang));
          x2 = fadd cx (fmul r2 (math_cos P ang));
          y2 = fadd cy (fmul r2 (math_sin P ang));
          (col, g3) = rgb g2 True;
          (k, g4) = next_u32 g3
      in (\<lparr>r_ang = ang, r_jitter = jit, r_len = r2, r_x1 = x1, r_y1 = y1, r_x2 = x2,
           r_y2 = y2, r_stroke = col, r_width = 1 + k mod 4\<rparr>, g4))"

fun ray_loop ::
  "platform \<Rightarrow> float \<Rightarrow> float \<Rightarrow> float \<Rightarrow> float \<Rightarrow> int \<Rightarrow> int list \<Rightarrow> rng \<Rightarrow> ray list \<times> rng" where
  "ray_loop P cx cy inner outer rays [] g = ([], g)"
| "ray_loop P cx cy inner outer rays (i # is) g =
     (let (l, g') = ray_step P cx cy inner outer rays i g;
          (ls, g'') = ray_loop P cx cy inner outer rays is g'
      in (l # ls, g''))"

text \<open>The radial motif of a canvas (source lines 108 to 129); \<open>half\<close> is \<^verbatim>\<open>size / 2\<close>.\<close>

definition motif :: "platform \<Rightarrow> int \<Rightarrow> float \<Rightarrow> rng \<Rightarrow> ray list \<times> rng" where
  "motif P sz half g =
     (let cx = half; cy = half;
          rays = 40;
          inner = fmul (float_of_int sz) (lit (6 / 100));
          outer = fmul (float_of_int sz) (lit (32 / 100))
      in ray_loop P cx cy inner outer rays (py_range rays) g)"

definition svg_header :: "int \<Rightarrow> string" where
  \<open>svg_header sz =
     ''<svg xmlns="https://www.w3.org/TR/SVG2/" width="'' @ str_int sz
       @ ''" height="'' @ str_int sz @ ''">''\<close>

definition background_svg :: "int \<Rightarrow> string \<Rightarrow> string" where
  \<open>background_svg sz col =
     ''<rect width="'' @ str_int sz @ ''" height="'' @ str_int sz
       @ ''" fill="'' @ col @ ''"/>''\<close>

definition anchor_svg :: "int \<Rightarrow> float \<Rightarrow> string \<Rightarrow> string" where
  \<open>anchor_svg sz half col =
     ''<circle cx="'' @ f half @ ''" cy="'' @ f half
       @ ''" r="'' @ f (fmul (float_of_int sz) (lit (3 / 100))) @ ''" fill="'' @ col @ ''"/>''\<close>

text \<open>
  The list \<^verbatim>\<open>parts\<close> at the end of \<^verbatim>\<open>build_svg\<close> (source lines 57 to 134), in the order of
  the source's appends and draws, with the exceptions the source can raise on the way:
  \<^verbatim>\<open>UnicodeEncodeError\<close> from the encoding of the seed in \<^verbatim>\<open>make_rng\<close> (line 13),
  \<^verbatim>\<open>ZeroDivisionError\<close> or \<^verbatim>\<open>OverflowError\<close> from \<^verbatim>\<open>size / cells\<close> (line 65),
  \<^verbatim>\<open>OverflowError\<close> from \<^verbatim>\<open>size / 2\<close> (line 108) and from the conversion of the size in
  \<^verbatim>\<open>size * 0.06\<close> (line 112).  \<open>motif\<close> and \<open>anchor_svg\<close>, which compute the products
  with the size, are reached only when that conversion has succeeded.
\<close>

definition svg_parts :: "platform \<Rightarrow> nat list \<Rightarrow> int \<Rightarrow> int \<Rightarrow> py_error + string list" where
  "svg_parts P seed sz cells =
     (case str_to_utf8 seed of
        Inl e \<Rightarrow> Inl e
      | Inr seed_utf8 \<Rightarrow>
         (let g0 = make_rng P seed_utf8;
              (bg, g1) = rgb g0 False
          in case int_truediv sz cells of
               Inl e \<Rightarrow> Inl e
             | Inr cell \<Rightarrow>
                (let (cs, g2) = grid_phase cell cells g1
                 in case int_truediv sz 2 of
                      Inl e \<Rightarrow> Inl e
                    | Inr half \<Rightarrow>
                       (case checked_float sz of
                          Inl e \<Rightarrow> Inl e
                        | Inr fsize \<Rightarrow>
                           (let (ls, g3) = motif P sz half g2;
                                (col, g4) = rgb g3 True
                            in Inr ([svg_header sz, background_svg sz bg]
                                    @ map shape_svg (emitted cs)
                                    @ map ray_svg ls
                                    @ [anchor_svg sz half col, ''</svg>'']))))))"

text \<open>\<^verbatim>\<open>sep.join(parts)\<close>.\<close>

fun join :: "string \<Rightarrow> string list \<Rightarrow> string" where
  "join sep [] = []"
| "join sep [x] = x"
| "join sep (x # y # ys) = x @ sep @ join sep (y # ys)"

definition newline :: string where
  "newline = [CHR 0x0A]"

definition build_svg :: "platform \<Rightarrow> nat list \<Rightarrow> int \<Rightarrow> int \<Rightarrow> py_error + string" where
  "build_svg P seed sz cells =
     (case svg_parts P seed sz cells of
        Inl e \<Rightarrow> Inl e
      | Inr parts \<Rightarrow> Inr (join newline parts @ newline))"

section \<open>The command line entry point\<close>

text \<open>
  \<^verbatim>\<open>main\<close> (source lines 139 to 169) after \<^verbatim>\<open>argparse\<close> has parsed the arguments.  The
  file system and the standard output are an abstract world \<open>'w\<close>; the three effects of
  the script on it are parameters.  Failures of the file system itself are not modelled.
  An exception of \<^verbatim>\<open>build_svg\<close> leaves \<^verbatim>\<open>main\<close> before any of the effects.
\<close>

record args =
  a_seed :: "nat list"
  a_out :: string
  a_size :: int
  a_cells :: int

record 'w os =
  mkdir_parent :: "string \<Rightarrow> 'w \<Rightarrow> 'w"
  write_text :: "string \<Rightarrow> string \<Rightarrow> 'w \<Rightarrow> 'w"
  print :: "string \<Rightarrow> nat list \<Rightarrow> 'w \<Rightarrow> 'w"

datatype outcome = SystemExit string | Raised py_error | Returned

definition main :: "platform \<Rightarrow> 'w os \<Rightarrow> args \<Rightarrow> 'w \<Rightarrow> outcome \<times> 'w" where
  "main P os a w =
     (if a_size a < 64 then (SystemExit ''--size must be >= 64'', w)
      else if a_cells a < 2 then (SystemExit ''--cells must be >= 2'', w)
      else case build_svg P (a_seed a) (a_size a) (a_cells a) of
             Inl e \<Rightarrow> (Raised e, w)
           | Inr svg \<Rightarrow>
              (let w1 = mkdir_parent os (a_out a) w;
                   w2 = write_text os (a_out a) svg w1;
                   w3 = print os (a_out a) (a_seed a) w2
               in (Returned, w3)))"


section \<open>Counting draws\<close>

text \<open>The number of draws the claims attribute to a shape of each kind.\<close>

fun shape_draws :: "shape \<Rightarrow> nat" where
  "shape_draws (Rect cx cy w h col alpha) = 10"
| "shape_draws (Circle cx cy r col alpha) = 9"

text \<open>The draws one cell consumes: one for a skipped cell, all of them for a shape.\<close>

fun cell_cost :: "shape option \<Rightarrow> nat" where
  "cell_cost None = 1"
| "cell_cost (Some s) = shape_draws s"

definition skipped :: "shape option list \<Rightarrow> nat" where
  "skipped cs = length (filter (\<lambda>c. c = None) cs)"

text \<open>
  The count of the grid phase as claim C3 words it: 10 or 9 for each shape, plus one
  skip-check draw for every cell.
\<close>

definition claimed_grid_draws :: "shape option list \<Rightarrow> nat" where
  "claimed_grid_draws cs = sum_list (map shape_draws (emitted cs)) + length cs"

text \<open>The count with one draw for every skipped cell only.\<close>

definition grid_draws :: "shape option list \<Rightarrow> nat" where
  "grid_draws cs = sum_list (map shape_draws (emitted cs)) + skipped cs"

section \<open>A platform for concrete evaluations\<close>

text \<open>
  The SHA-256 digest of the seed text \<^verbatim>\<open>abc\<close> begins with the bytes \<^verbatim>\<open>ba 78 16 bf\<close>, and
  \<^verbatim>\<open>make_rng\<close> reads no further.  The platform below returns these four bytes as the
  digest of every message, and fixed values for sine and cosine; it serves to evaluate
  the model on the seed \<^verbatim>\<open>abc\<close>.
\<close>

definition abc_platform :: platform where
  "abc_platform =
     \<lparr>sha256_digest = (\<lambda>m. [0xba, 0x78, 0x16, 0xbf]),
      math_sin = (\<lambda>x. 0), math_cos = (\<lambda>x. 1)\<rparr>"

section \<open>Bounds on the grid shapes\<close>



section \<open>What a ray of the motif is\<close>

text \<open>
  A ray drawn as number \<open>i\<close> of \<open>rays\<close> around the centre \<open>(cx, cy)\<close>: its angle is the
  evenly spaced angle \<open>2 \<pi> i / rays\<close> plus a jitter of at most 0.06, the line starts at
  distance \<open>inner\<close> from the centre and ends at distance \<open>outer\<close> times a factor between
  0.8 and 1.2, and its stroke width is one of 1, 2, 3, 4.
\<close>

definition ray_in_spec ::
  "platform \<Rightarrow> float \<Rightarrow> float \<Rightarrow> float \<Rightarrow> float \<Rightarrow> int \<Rightarrow> int \<Rightarrow> ray \<Rightarrow> bool" where
  "ray_in_spec P cx cy inner outer rays i l \<longleftrightarrow>
     r_ang l = fadd (fdiv (fmul (fmul (float_of_int 2) math_pi) (float_of_int i))
                          (float_of_int rays)) (r_jitter l)
     \<and> - (6 / 100) \<le> r_jitter l \<and> r_jitter l \<le> 6 / 100
     \<and> (\<exists>k. 8 / 10 \<le> k \<and> k \<le> 12 / 10 \<and> r_len l = fmul outer k)
     \<and> r_x1 l = fadd cx (fmul inner (math_cos P (r_ang l)))
     \<and> r_y1 l = fadd cy (fmul inner (math_sin P (r_ang l)))
     \<and> r_x2 l = fadd cx (fmul (r_len l) (math_cos P (r_ang l)))
     \<and> r_y2 l = fadd cy (fmul (r_len l) (math_sin P (r_ang l)))
     \<and> r_width l \<in> {1, 2, 3, 4}"

section \<open>Two-decimal text\<close>

definition is_digit :: "char \<Rightarrow> bool" where
  "is_digit c \<longleftrightarrow> c \<in> set ''0123456789''"

text \<open>
  A number printed with fixed two-decimal precision: an optional minus sign, at least one
  digit, a point, and exactly two digits.
\<close>

definition two_decimals :: "string \<Rightarrow> bool" where
  "two_decimals s =
     (let t = (if take 1 s = ''-'' then drop 1 s else s); n = length t
      in 4 \<le> n \<and> list_all is_digit (take (n - 3) t) \<and> t ! (n - 3) = CHR ''.''
         \<and> is_digit (t ! (n - 2)) \<and> is_digit (t ! (n - 1)))"

section \<open>An operating system that logs its effects\<close>

text \<open>A world that is the list of the effects applied to it, for concrete evaluations.\<close>

definition log_os :: "string list os" where
  "log_os =
     \<lparr>mkdir_parent = (\<lambda>p w. w @ [''mkdir parent of '' @ p]),
      write_text = (\<lambda>p s w. w @ [''write '' @ p]),
      print = (\<lambda>p s w. w @ [''print Wrote '' @ p])\<rparr>"

section \<open>Reading the attributes of an element back\<close>

text \<open>
  The pieces of a text between its double quotes: \<open>split_acc c acc s\<close> cuts \<open>s\<close> at every
  \<open>c\<close>, with \<open>acc\<close> the reversed beginning of the current piece.  The attribute values of
  an element are every second piece.
\<close>

fun split_acc :: "char \<Rightarrow> string \<Rightarrow> string \<Rightarrow> string list" where
  "split_acc c acc [] = [rev acc]"
| "split_acc c acc (x # xs) =
     (if x = c then rev acc # split_acc c [] xs else split_acc c (x # acc) xs)"

fun odds :: "'a list \<Rightarrow> 'a list" where
  "odds (x # y # zs) = y # odds zs"
| "odds xs = []"

definition attr_values :: "string \<Rightarrow> string list" where
  "attr_values s = odds (split_acc (CHR 0x22) [] s)"

text \<open>
  The attribute values claim C7, as amended, expects of each element: every number
  computed in floating point printed by \<open>f\<close>, the colour as it is, and for a ray the fixed
  texts of the stroke opacity and the line cap.
\<close>

fun shape_attrs :: "shape \<Rightarrow> string list" where
  "shape_attrs (Rect cx cy w h col alpha) =
     [f (fsub cx (fdiv w (float_of_int 2))), f (fsub cy (fdiv h (float_of_int 2))),
      f w, f h, col, f alpha]"
| "shape_attrs (Circle cx cy r col alpha) = [f cx, f cy, f r, col, f alpha]"

definition ray_attrs :: "ray \<Rightarrow> string list" where
  "ray_attrs l =
     [f (r_x1 l), f (r_y1 l), f (r_x2 l), f (r_y2 l), r_stroke l,
      f (float_of_int (r_width l)), ''0.8'', ''round'']"

text \<open>A colour text as \<^verbatim>\<open>rgb\<close> returns it, with channels from 0 to 255.\<close>

definition is_colour :: "string \<Rightarrow> bool" where
  "is_colour t \<longleftrightarrow>
     (\<exists>r g b. t = rgb_text (r, g, b) \<and> 0 \<le> r \<and> r \<le> 255 \<and> 0 \<le> g \<and> g \<le> 255
        \<and> 0 \<le> b \<and> b \<le> 255)"
section \<open>Facts about masking\<close>

lemma MASK32_mask: "MASK32 = mask 32"
  by (simp add: MASK32_def mask_eq_exp_minus_1)

lemma and_MASK32: "x AND MASK32 = take_bit 32 x"
  by (simp add: MASK32_mask take_bit_eq_mask)

lemma u32_take_bit: "u32 (take_bit 32 x)"
  by (simp add: u32_def take_bit_int_less_exp [of 32, simplified])

lemma u32_take_bit_id: "u32 x \<Longrightarrow> take_bit 32 x = x"
  by (simp add: u32_def take_bit_int_eq_self)

lemma u32_iff: "u32 x \<longleftrightarrow> take_bit 32 x = x"
  by (auto simp add: u32_def take_bit_int_eq_self_iff)

lemma u32_xor: "u32 a \<Longrightarrow> u32 b \<Longrightarrow> u32 (a XOR b)"
  by (simp add: u32_iff)

lemma u32_drop_bit: "u32 a \<Longrightarrow> u32 (drop_bit k a)"
proof -
  assume a: "u32 a"
  then have "0 \<le> a" by (simp add: u32_def)
  then have "a div 2 ^ k \<le> a" by (simp add: zdiv_mono2 [of a 1 "2 ^ k", simplified])
  with a show ?thesis by (simp add: u32_def drop_bit_eq_div pos_imp_zdiv_nonneg_iff)
qed

lemma left_step:
  assumes "u32 x"
  shows "x XOR (push_bit k x AND MASK32) = take_bit 32 (x XOR push_bit k x)"
proof -
  from assms have "take_bit 32 x = x" by (simp only: u32_iff)
  then show ?thesis by (simp add: and_MASK32)
qed

lemma spec_step_l13_eq: "u32 x \<Longrightarrow> x XOR (push_bit 13 x AND MASK32) = spec_step_l13 x"
  using left_step [of x 13] by (simp add: spec_step_l13_def and_MASK32)

lemma spec_step_l5_eq: "u32 x \<Longrightarrow> x XOR (push_bit 5 x AND MASK32) = spec_step_l5 x"
  using left_step [of x 5] by (simp add: spec_step_l5_def and_MASK32)

lemma spec_step_r17_eq:
  assumes "u32 x"
  shows "x XOR drop_bit 17 x = spec_step_r17 x"
proof -
  have "u32 (x XOR drop_bit 17 x)" using assms by (intro u32_xor u32_drop_bit)
  then show ?thesis by (simp only: spec_step_r17_def and_MASK32 u32_iff)
qed

lemma u32_spec_steps:
  "u32 (spec_step_l13 x)" "u32 (spec_step_r17 x)" "u32 (spec_step_l5 x)"
  by (simp_all only: spec_step_l13_def spec_step_r17_def spec_step_l5_def and_MASK32 u32_take_bit)

lemma xorshift_spec:
  assumes "u32 s"
  shows "xorshift s = spec_draw s"
proof -
  have 1: "s XOR (push_bit 13 s AND MASK32) = spec_step_l13 s"
    using assms by (rule spec_step_l13_eq)
  have 2: "spec_step_l13 s XOR drop_bit 17 (spec_step_l13 s) = spec_step_r17 (spec_step_l13 s)"
    by (rule spec_step_r17_eq) (rule u32_spec_steps)
  have 3: "spec_step_r17 (spec_step_l13 s)
             XOR (push_bit 5 (spec_step_r17 (spec_step_l13 s)) AND MASK32) = spec_draw s"
    unfolding spec_draw_def by (rule spec_step_l5_eq) (rule u32_spec_steps)
  have 4: "spec_draw s AND MASK32 = spec_draw s"
    unfolding and_MASK32 spec_draw_def using u32_spec_steps(3) by (simp only: u32_iff)
  show ?thesis
    unfolding xorshift_def Let_def 1 2 3 4 ..
qed

lemma u32_xorshift: "u32 (xorshift s)"
  unfolding xorshift_def Let_def and_MASK32 by (rule u32_take_bit)

section \<open>Claim C8: one draw is three masked xorshift steps\<close>

text \<open>
  C8.  Each call of \<^verbatim>\<open>next_u32\<close> on a 32-bit state applies the three steps in order
  (XOR with the state shifted left by 13, then with it shifted right by 17, then with it
  shifted left by 5), each masked to 32 bits; the result is stored as the new state and
  is also the returned value.  The call is counted once.
\<close>

theorem next_u32_three_xorshift_steps:
  assumes "u32 (state g)"
  shows "fst (next_u32 g) = spec_step_l5 (spec_step_r17 (spec_step_l13 (state g)))
       \<and> state (snd (next_u32 g)) = fst (next_u32 g)
       \<and> calls (snd (next_u32 g)) = calls g + 1
       \<and> u32 (fst (next_u32 g))"
  using xorshift_spec [OF assms] u32_xorshift [of "state g"]
  by (simp add: next_u32_def Let_def spec_draw_def)

theorem next_u32_three_xorshift_steps_witness:
  "u32 (state \<lparr>state = 1, calls = 0\<rparr>)
   \<and> fst (next_u32 \<lparr>state = 1, calls = 0\<rparr>) = 270369
   \<and> spec_step_l5 (spec_step_r17 (spec_step_l13 1)) = 270369
   \<and> state (snd (next_u32 \<lparr>state = 1, calls = 0\<rparr>)) = 270369
   \<and> calls (snd (next_u32 \<lparr>state = 1, calls = 0\<rparr>)) = 1"
proof -
  have h: "u32 (state \<lparr>state = 1, calls = 0\<rparr>)" by (simp add: u32_def)
  have v: "spec_step_l5 (spec_step_r17 (spec_step_l13 1)) = 270369"
    by (simp add: spec_step_l5_def spec_step_r17_def spec_step_l13_def MASK32_def)
  show ?thesis
    using h v next_u32_three_xorshift_steps [OF h] by simp
qed

section \<open>Claim C2: the generator state is never zero\<close>

lemma xor_push_zero:
  fixes x :: int
  assumes k: "0 < k" and z: "take_bit n (x XOR push_bit k x) = 0"
  shows "take_bit n x = 0"
proof -
  have b: "\<not> bit x i" if "i < n" for i
    using that
  proof (induction i rule: less_induct)
    case (less i)
    from z have "\<not> bit (take_bit n (x XOR push_bit k x)) i" by simp
    with less.prems have e: "bit x i = bit (push_bit k x) i"
      by (simp add: bit_simps)
    show ?case
    proof (cases "i < k")
      case True
      with e show ?thesis by (simp add: bit_simps)
    next
      case False
      with k less.prems have "i - k < i" "i - k < n" by auto
      then have "\<not> bit x (i - k)" by (rule less.IH)
      with e show ?thesis by (simp add: bit_simps)
    qed
  qed
  show ?thesis
    by (rule bit_eqI) (simp add: bit_simps b)
qed

lemma xor_drop_zero:
  fixes x :: int
  assumes "0 < k" "0 \<le> x" "x XOR drop_bit k x = 0"
  shows "x = 0"
proof -
  from assms(3) have "x = drop_bit k x" by (simp add: bit_eq_iff bit_simps) 
  then have e: "x = x div 2 ^ k" by (simp add: drop_bit_eq_div)
  show ?thesis
  proof (rule ccontr)
    assume "x \<noteq> 0"
    with assms(2) have "0 < x" by simp
    moreover have "(1::int) < 2 ^ k" using assms(1) by (simp add: one_less_power)
    ultimately have "x div 2 ^ k < x" by (rule int_div_less_self)
    with e show False by simp
  qed
qed

lemma spec_step_l13_zero: "u32 x \<Longrightarrow> spec_step_l13 x = 0 \<Longrightarrow> x = 0"
  using xor_push_zero [of 13 32 x] by (simp only: spec_step_l13_def and_MASK32 u32_iff)

lemma spec_step_l5_zero: "u32 x \<Longrightarrow> spec_step_l5 x = 0 \<Longrightarrow> x = 0"
  using xor_push_zero [of 5 32 x] by (simp only: spec_step_l5_def and_MASK32 u32_iff)

lemma spec_step_r17_zero: 
  assumes "u32 x" "spec_step_r17 x = 0" shows "x = 0"
proof -
  from assms have "x XOR drop_bit 17 x = 0" by (simp only: spec_step_r17_eq)
  moreover from assms(1) have "0 \<le> x" by (simp add: u32_def)
  ultimately show ?thesis using xor_drop_zero [of 17 x] by simp
qed

lemma xorshift_nonzero:
  assumes "u32 s" "s \<noteq> 0"
  shows "xorshift s \<noteq> 0"
proof
  assume "xorshift s = 0"
  with assms(1) have "spec_step_l5 (spec_step_r17 (spec_step_l13 s)) = 0"
    by (simp add: xorshift_spec spec_draw_def)
  then have "spec_step_r17 (spec_step_l13 s) = 0"
    by (rule spec_step_l5_zero [OF u32_spec_steps(2)])
  then have "spec_step_l13 s = 0"
    by (rule spec_step_r17_zero [OF u32_spec_steps(1)])
  with assms(1) have "s = 0" by (rule spec_step_l13_zero)
  with assms(2) show False by simp
qed

lemma live_next: "live g \<Longrightarrow> live (snd (next_u32 g))"
  by (simp add: live_def next_u32_def Let_def u32_xorshift xorshift_nonzero)

lemma live_draws: "live g \<Longrightarrow> live (draws n g)"
  by (induction n arbitrary: g) (simp_all add: live_next)

lemma from_bytes_big_bounds:
  "0 \<le> from_bytes_big bs \<and> from_bytes_big bs < 256 ^ length bs"
proof -
  have "0 \<le> foldl (\<lambda>acc b. acc * 256 + uint b) a bs
      \<and> foldl (\<lambda>acc b. acc * 256 + uint b) a bs < (a + 1) * 256 ^ length bs"
    if "0 \<le> a" for a :: int and bs :: "byte list"
    using that
  proof (induction bs arbitrary: a)
    case Nil
    then show ?case by simp
  next
    case (Cons b bs)
    have b: "0 \<le> uint b" "uint b < 256"
      using uint_lt2p [of b] by simp_all
    with Cons.prems have "0 \<le> a * 256 + uint b" by simp
    from Cons.IH [OF this]
    have 1: "0 \<le> foldl (\<lambda>acc b. acc * 256 + uint b) (a * 256 + uint b) bs"
      and 2: "foldl (\<lambda>acc b. acc * 256 + uint b) (a * 256 + uint b) bs
               < (a * 256 + uint b + 1) * 256 ^ length bs"
      by simp_all
    from b have "a * 256 + uint b + 1 \<le> (a + 1) * 256" by simp
    then have "(a * 256 + uint b + 1) * 256 ^ length bs \<le> ((a + 1) * 256) * 256 ^ length bs"
      by (rule mult_right_mono) simp
    then have "(a * 256 + uint b + 1) * 256 ^ length bs \<le> (a + 1) * 256 ^ length (b # bs)"
      by (simp add: mult.assoc)
    with 2 have "foldl (\<lambda>acc b. acc * 256 + uint b) (a * 256 + uint b) bs
               < (a + 1) * 256 ^ length (b # bs)"
      by (rule less_le_trans)
    with 1 show ?case by simp
  qed
  from this [of 0] show ?thesis by (simp add: from_bytes_big_def)
qed

lemma u32_from_4_bytes: "u32 (from_bytes_big (take 4 bs))"
proof -
  have "(256::int) ^ length (take 4 bs) \<le> 256 ^ 4"
    by (rule power_increasing) simp_all
  with from_bytes_big_bounds [of "take 4 bs"] show ?thesis
    by (simp add: u32_def)
qed

lemma live_make_rng: "live (make_rng P seed)"
  using u32_from_4_bytes [of "sha256_digest P (encode_utf8 seed)"]
  by (simp add: live_def make_rng_def Let_def u32_def)

text \<open>
  C2.  For every seed text the initial state is the big-endian value of the first four
  digest bytes, with 0 replaced by 1, and the state is a non-zero 32-bit value after any
  number \<open>n\<close> of calls of \<^verbatim>\<open>next_u32\<close>.
\<close>

theorem state_never_zero:
  "state (make_rng P seed)
     = (let v = from_bytes_big (take 4 (sha256_digest P (encode_utf8 seed)))
        in if v = 0 then 1 else v)
   \<and> u32 (state (draws n (make_rng P seed)))
   \<and> state (draws n (make_rng P seed)) \<noteq> 0"
  using live_draws [OF live_make_rng, of n P seed]
  by (simp add: live_def make_rng_def Let_def)


section \<open>Claim C5: brightening\<close>

lemma and_255_bounds: "0 \<le> (x::int) AND 255 \<and> x AND 255 \<le> 255"
  by simp

lemma rgb_draw_range:
  assumes "fst (rgb_draw g) = (r, gc, b)"
  shows "0 \<le> r \<and> r \<le> 255 \<and> 0 \<le> gc \<and> gc \<le> 255 \<and> 0 \<le> b \<and> b \<le> 255"
  using assms and_255_bounds
  by (auto simp add: rgb_draw_def Let_def split: prod.splits)

lemma brighten_rgb_lifts:
  assumes "0 \<le> r" "0 \<le> gc" "0 \<le> b" "r + gc + b < 180"
    and "brighten_rgb True (r, gc, b) = (r', gc', b')"
  shows "180 \<le> r' + gc' + b' \<and> r' \<le> 255 \<and> gc' \<le> 255 \<and> b' \<le> 255"
proof -
  define bump where "bump = (180 - (r + gc + b)) div 3 + 1"
  have 1: "180 - (r + gc + b) < 3 * bump" "bump \<le> 61"
    using assms(1-4) by (simp_all add: bump_def)
  from assms have "r' = r + bump" "gc' = gc + bump" "b' = b + bump"
    by (auto simp add: brighten_rgb_def Let_def bump_def)
  with 1 assms(1-4) show ?thesis by linarith
qed

lemma rgb_draw_8: "fst (rgb_draw \<lparr>state = 8, calls = 0\<rparr>) = (8, 48, 99)"
  by (simp add: rgb_draw_def next_u32_def xorshift_def MASK32_def Let_def)

lemma br_8: "brighten_rgb True (8, 48, 99) = (17, 57, 108)"
  by (simp add: brighten_rgb_def Let_def)

text \<open>
  C5.  Whenever the three channels drawn by \<^verbatim>\<open>rgb\<close> sum to less than 180, the colour it
  returns with brightening on is the drawn colour with every channel raised by
  \<open>(180 - sum) div 3 + 1\<close> and clamped to 255; its channels sum to at least 180 and none
  exceeds 255.
\<close>

theorem brighten_reaches_180:
  assumes "fst (rgb_draw g) = (r, gc, b)" and "r + gc + b < 180"
    and "brighten_rgb True (r, gc, b) = (r', gc', b')"
  shows "fst (rgb g True) = rgb_text (r', gc', b')
       \<and> 180 \<le> r' + gc' + b' \<and> r' \<le> 255 \<and> gc' \<le> 255 \<and> b' \<le> 255"
proof -
  from rgb_draw_range [OF assms(1)] have "0 \<le> r" "0 \<le> gc" "0 \<le> b" by simp_all
  from brighten_rgb_lifts [OF this assms(2,3)]
  have "180 \<le> r' + gc' + b' \<and> r' \<le> 255 \<and> gc' \<le> 255 \<and> b' \<le> 255" .
  moreover from assms(1,3) have "fst (rgb g True) = rgb_text (r', gc', b')"
    by (cases "rgb_draw g") (simp add: rgb_def)
  ultimately show ?thesis by simp
qed

theorem brighten_reaches_180_witness:
  "fst (rgb_draw \<lparr>state = 8, calls = 0\<rparr>) = (8, 48, 99) \<and> (8::int) + 48 + 99 < 180
   \<and> brighten_rgb True (8, 48, 99) = (17, 57, 108)
   \<and> fst (rgb \<lparr>state = 8, calls = 0\<rparr> True) = rgb_text (17, 57, 108)
   \<and> (180::int) \<le> 17 + 57 + 108"
  using brighten_reaches_180 [OF rgb_draw_8 _ br_8] rgb_draw_8 br_8 by simp


section \<open>How many draws each part consumes\<close>

lemma snd_next_u32: "snd (next_u32 g) = draws 1 g"
  by simp

lemma draws_add: "draws m (draws n g) = draws (n + m) g"
  by (induction n arbitrary: g) simp_all

lemma calls_draws: "calls (draws n g) = calls g + n"
  by (induction n arbitrary: g) (simp_all add: next_u32_def Let_def)

lemma snd_rand01: "snd (rand01 g) = draws 1 g"
  by (simp add: rand01_def case_prod_beta)

lemma snd_rgb_draw: "snd (rgb_draw g) = draws 3 g"
  by (simp add: rgb_draw_def case_prod_beta Let_def numeral_3_eq_3)

lemma snd_rgb: "snd (rgb g b) = draws 3 g"
  by (simp add: rgb_def case_prod_beta snd_rgb_draw)

lemma cell_shape_draws:
  "snd (cell_shape cell gy gx g) = draws (cell_cost (fst (cell_shape cell gy gx g))) g"
  by (simp add: cell_shape_def Let_def case_prod_beta snd_rand01 snd_rgb snd_next_u32 draws_add
      del: draws.simps One_nat_def)


lemma row_loop_draws:
  "snd (row_loop cell gy gxs g) = draws (sum_list (map cell_cost (fst (row_loop cell gy gxs g)))) g
   \<and> length (fst (row_loop cell gy gxs g)) = length gxs"
proof (induction gxs arbitrary: g)
  case Nil
  show ?case by simp
next
  case (Cons gx gxs)
  show ?case
    using Cons.IH [of "snd (cell_shape cell gy gx g)"]
    by (simp add: case_prod_beta Let_def cell_shape_draws draws_add del: draws.simps)
qed

lemma grid_loop_draws:
  "snd (grid_loop cell gys gxs g) = draws (sum_list (map cell_cost (fst (grid_loop cell gys gxs g)))) g
   \<and> length (fst (grid_loop cell gys gxs g)) = length gys * length gxs"
proof (induction gys arbitrary: g)
  case Nil
  show ?case by simp
next
  case (Cons gy gys)
  show ?case
    using Cons.IH [of "snd (row_loop cell gy gxs g)"] row_loop_draws [of cell gy gxs g]
    by (simp add: case_prod_beta Let_def draws_add del: draws.simps)
qed

lemma cost_split: "sum_list (map cell_cost cs) = grid_draws cs"
  by (induction cs) (auto simp add: grid_draws_def emitted_def skipped_def List.map_filter_simps split: option.splits)

lemma emitted_skipped: "length (emitted cs) + skipped cs = length cs"
  by (induction cs) (auto simp add: emitted_def skipped_def List.map_filter_simps split: option.splits)


lemma make_rng_abc: "make_rng abc_platform ''abc'' = \<lparr>state = 3128432319, calls = 0\<rparr>"
  by (simp add: make_rng_def abc_platform_def from_bytes_big_def Let_def)

lemma draws_3_abc: "draws 3 (make_rng abc_platform ''abc'') = \<lparr>state = 2178728645, calls = 3\<rparr>"
  by (simp add: make_rng_abc numeral_3_eq_3 next_u32_def xorshift_def MASK32_def Let_def)

lemma first_cell_abc: "\<not> fst (rand01 \<lparr>state = 2178728645, calls = 3\<rparr>) < lit (15 / 100)"
  by code_simp

lemma py_range_2: "py_range 2 = [0, 1]"
  by code_simp

lemma cell_not_skipped:
  "\<not> fst (rand01 g) < lit (15 / 100) \<Longrightarrow> fst (cell_shape cell gy gx g) \<noteq> None"
  by (simp add: cell_shape_def Let_def case_prod_beta)

section \<open>Claim C3: the draws of the grid phase\<close>

text \<open>
  C3, as amended.  The grid phase of an \<open>N \<times> N\<close> grid visits \<open>N * N\<close> cells.  A cell that
  emits a rectangle consumes 10 draws and a cell that emits a circle 9, the skip-check
  draw included; a skipped cell consumes its skip-check draw only.  The grid phase
  consumes the sum of these and nothing else.
\<close>

theorem grid_phase_draw_count:
  "snd (grid_phase cell cells g) = draws (grid_draws (fst (grid_phase cell cells g))) g
   \<and> calls (snd (grid_phase cell cells g)) = calls g + grid_draws (fst (grid_phase cell cells g))
   \<and> length (fst (grid_phase cell cells g)) = nat cells * nat cells
   \<and> length (emitted (fst (grid_phase cell cells g))) + skipped (fst (grid_phase cell cells g))
       = nat cells * nat cells"
  using grid_loop_draws [of cell "py_range cells" "py_range cells" g]
  by (simp add: grid_phase_def cost_split calls_draws emitted_skipped py_range_def)

text \<open>
  C3 as stated counts 10 or 9 draws for each shape \<^emph>\<open>plus\<close> one skip-check draw for every
  cell.  For the seed \<^verbatim>\<open>abc\<close>, a canvas of 64 and 2 cells per side (cell size 32), after
  the three draws of the background colour, the first cell is not skipped, so that count
  is too high.
\<close>

theorem claimed_grid_draws_counterexample:
  "calls (snd (grid_phase 32 2 (draws 3 (make_rng abc_platform ''abc''))))
     \<noteq> calls (draws 3 (make_rng abc_platform ''abc''))
         + claimed_grid_draws (fst (grid_phase 32 2 (draws 3 (make_rng abc_platform ''abc''))))"
proof -
  define g where "g = \<lparr>state = 2178728645, calls = 3\<rparr>"
  define cs where "cs = fst (grid_phase 32 2 g)"
  define c0 where "c0 = fst (cell_shape 32 0 0 g)"
  define rest where "rest = tl cs"
  have eq: "cs = c0 # rest"
    by (simp add: cs_def rest_def c0_def grid_phase_def py_range_2 case_prod_beta Let_def)
  have "c0 \<noteq> None"
    unfolding g_def c0_def by (rule cell_not_skipped [OF first_cell_abc])
  then obtain s where c0: "c0 = Some s" by auto
  have "emitted cs = s # emitted rest"
    unfolding eq c0 by (simp add: emitted_def List.map_filter_simps)
  then have "emitted cs \<noteq> []" by simp
  then have "skipped cs < length cs"
    using emitted_skipped [of cs] by (cases "emitted cs") simp_all
  then have "grid_draws cs < claimed_grid_draws cs"
    by (simp add: grid_draws_def claimed_grid_draws_def)
  moreover have "calls (snd (grid_phase 32 2 g)) = calls g + grid_draws cs"
    using grid_loop_draws [of 32 "py_range 2" "py_range 2" g]
    by (simp add: cs_def grid_phase_def cost_split calls_draws)
  ultimately show ?thesis
    by (simp add: draws_3_abc g_def [symmetric] cs_def [symmetric])
qed


section \<open>Rounding is monotone\<close>

lemma rne_of_int: "rne (of_int n) = n"
  by (simp add: rne_def)

lemma rne_mono: "a \<le> b \<Longrightarrow> rne a \<le> rne b"
proof -
  assume ab: "a \<le> b"
  then have fl: "\<lfloor>a\<rfloor> \<le> \<lfloor>b\<rfloor>" by (rule floor_mono)
  have lo: "\<lfloor>q\<rfloor> \<le> rne q" and hi: "rne q \<le> \<lfloor>q\<rfloor> + 1" for q
    by (simp_all add: rne_def Let_def)
  show ?thesis
  proof (cases "\<lfloor>a\<rfloor> < \<lfloor>b\<rfloor>")
    case True
    with hi [of a] lo [of b] show ?thesis by linarith
  next
    case False
    with fl have "\<lfloor>a\<rfloor> = \<lfloor>b\<rfloor>" by simp
    with ab show ?thesis by (auto simp add: rne_def Let_def)
  qed
qed

lemma rne_minus: "rne (- q) = - rne q"
proof (cases "q = of_int \<lfloor>q\<rfloor>")
  case True
  then obtain n where "q = of_int n" ..
  then show ?thesis by (simp add: rne_def flip: of_int_minus)
next
  case False
  then have fm: "\<lfloor>- q\<rfloor> = - \<lfloor>q\<rfloor> - 1"
    by (simp add: floor_minus ceiling_altdef)
  show ?thesis
    unfolding rne_def Let_def fm by (auto simp add: algebra_simps)
qed


lemma bitlen_pos: "0 < p \<Longrightarrow> 1 \<le> bitlen p"
  using bitlen_nonneg [of p] bitlen_eq_zero_iff [of p] by linarith

lemma bitlen_powi:
  assumes "0 < p"
  shows "2 powi (bitlen p - 1) \<le> (of_int p :: rat)" and "(of_int p :: rat) < 2 * 2 powi (bitlen p - 1)"
proof -
  from bitlen_pos [OF assms] have b: "0 \<le> bitlen p - 1" by simp
  from bitlen_bounds [OF assms] have 1: "2 ^ nat (bitlen p - 1) \<le> p" and 2: "p < 2 ^ nat (bitlen p)"
    by simp_all
  have n: "nat (bitlen p) = Suc (nat (bitlen p - 1))" using b by simp
  from 1 have "(of_int (2 ^ nat (bitlen p - 1)) :: rat) \<le> of_int p" by (simp only: of_int_le_iff)
  then show "2 powi (bitlen p - 1) \<le> (of_int p :: rat)"
    using b by (simp add: power_int_nonneg_exp)
  from 2 have "(of_int p :: rat) < of_int (2 ^ nat (bitlen p))" by (simp only: of_int_less_iff)
  then show "(of_int p :: rat) < 2 * 2 powi (bitlen p - 1)"
    using b by (simp add: power_int_nonneg_exp n)
qed

lemma powi_succ: "(2::rat) powi (k + 1) = 2 * 2 powi k"
  by (simp add: power_int_add)

lemma powi_pred: "(2::rat) powi (k - 1) = 2 powi k / 2"
  by (simp add: power_int_diff)

lemma ilog2_bounds:
  assumes "x \<noteq> 0"
  shows "2 powi (ilog2 x) \<le> \<bar>x\<bar>" and "\<bar>x\<bar> < 2 * 2 powi (ilog2 x)"
proof -
  obtain p q where pq: "quotient_of \<bar>x\<bar> = (p, q)" by (cases "quotient_of \<bar>x\<bar>")
  then have q: "0 < q" by (rule quotient_of_denom_pos)
  from pq have x: "\<bar>x\<bar> = of_int p / of_int q" by (rule quotient_of_div)
  from assms have "0 < \<bar>x\<bar>" by simp
  with x q have p: "0 < p" by (simp add: zero_less_divide_iff)
  define A :: rat where "A = 2 powi (bitlen p - 1)"
  define C :: rat where "C = 2 powi (bitlen q - 1)"
  define e where "e = bitlen p - bitlen q"
  have A: "0 < A" and C: "0 < C" by (simp_all add: A_def C_def)
  have pA: "A \<le> of_int p" "of_int p < 2 * A"
    using bitlen_powi [OF p] by (simp_all add: A_def)
  have qC: "C \<le> of_int q" "of_int q < 2 * C"
    using bitlen_powi [OF q] by (simp_all add: C_def)
  have e: "2 powi e = A / C"
  proof -
    have 1: "(bitlen p - 1) - (bitlen q - 1) = e" by (simp add: e_def)
    have "(2::rat) powi ((bitlen p - 1) - (bitlen q - 1)) = 2 powi (bitlen p - 1) / 2 powi (bitlen q - 1)"
      by (rule power_int_diff) simp
    then show ?thesis unfolding 1 A_def C_def .
  qed
  have Q: "0 < (of_int q :: rat)" using q by simp
  have up: "\<bar>x\<bar> < 2 * (A / C)"
  proof -
    have "of_int p * C < (2 * A) * of_int q"
      using pA qC A C Q by (intro mult_less_le_imp_less) simp_all
    then show ?thesis using Q C by (simp add: x field_simps)
  qed
  have lo: "(A / C) / 2 \<le> \<bar>x\<bar>"
  proof -
    have "A * of_int q \<le> of_int p * (2 * C)"
      using pA qC A C Q by (intro mult_mono) simp_all
    then show ?thesis using Q C by (simp add: x field_simps)
  qed
  have il: "ilog2 x = (if 2 powi e \<le> \<bar>x\<bar> then e else e - 1)"
    by (simp add: ilog2_def pq e_def Let_def)
  show "2 powi (ilog2 x) \<le> \<bar>x\<bar>"
    using lo by (simp add: il powi_pred e)
  show "\<bar>x\<bar> < 2 * 2 powi (ilog2 x)"
    using up by (auto simp add: il powi_pred e)
qed


lemma rnd_pos_unfold:
  assumes "0 < x"
  shows "rnd x = of_int (rne (x * 2 ^ 52 / 2 powi (ilog2 x))) * (2 powi (ilog2 x) / 2 ^ 52)"
proof -
  have "(2::rat) powi (ilog2 x - 52) = 2 powi (ilog2 x) / 2 powi 52"
    by (rule power_int_diff) simp
  then have u: "(2::rat) powi (ilog2 x - 52) = 2 powi (ilog2 x) / 2 ^ 52" by simp
  from assms show ?thesis by (simp add: rnd_def Let_def u)
qed

lemma rnd_pos_range:
  assumes "0 < x"
  shows "2 powi (ilog2 x) \<le> rnd x" and "rnd x \<le> 2 * 2 powi (ilog2 x)"
proof -
  define E :: rat where "E = 2 powi (ilog2 x)"
  have E: "0 < E" by (simp add: E_def)
  from assms ilog2_bounds [of x] have b: "E \<le> x" "x < 2 * E" by (simp_all add: E_def)
  have 1: "of_int (2 ^ 52) \<le> x * 2 ^ 52 / E" using b E by (simp add: field_simps)
  have 2: "x * 2 ^ 52 / E \<le> of_int (2 * 2 ^ 52)" using b E by (simp add: field_simps)
  from rne_mono [OF 1] have l: "2 ^ 52 \<le> rne (x * 2 ^ 52 / E)" by (simp only: rne_of_int)
  from rne_mono [OF 2] have h: "rne (x * 2 ^ 52 / E) \<le> 2 * 2 ^ 52" by (simp only: rne_of_int)
  have r: "rnd x = of_int (rne (x * 2 ^ 52 / E)) * (E / 2 ^ 52)"
    unfolding E_def by (rule rnd_pos_unfold [OF assms])
  have "of_int (2 ^ 52) * (E / 2 ^ 52) \<le> of_int (rne (x * 2 ^ 52 / E)) * (E / 2 ^ 52)"
    using l E by (intro mult_right_mono) (simp_all only: of_int_le_iff, simp)
  then show "2 powi (ilog2 x) \<le> rnd x" by (simp add: r E_def)
  have "of_int (rne (x * 2 ^ 52 / E)) * (E / 2 ^ 52) \<le> of_int (2 * 2 ^ 52) * (E / 2 ^ 52)"
    using h E by (intro mult_right_mono) (simp_all only: of_int_le_iff, simp)
  then show "rnd x \<le> 2 * 2 powi (ilog2 x)" by (simp add: r E_def)
qed

lemma ilog2_mono:
  assumes "0 < x" "x \<le> y"
  shows "ilog2 x \<le> ilog2 y"
proof (rule ccontr)
  assume "\<not> ilog2 x \<le> ilog2 y"
  then have "ilog2 y + 1 \<le> ilog2 x" by simp
  then have "(2::rat) powi (ilog2 y + 1) \<le> 2 powi (ilog2 x)"
    by (rule power_int_increasing) simp
  moreover from assms ilog2_bounds [of x] have "2 powi (ilog2 x) \<le> x" by simp
  moreover from assms ilog2_bounds [of y] have "y < 2 * 2 powi (ilog2 y)" by simp
  ultimately show False using assms(2) by (simp add: powi_succ)
qed

lemma rnd_mono_pos:
  assumes "0 < x" "x \<le> y"
  shows "rnd x \<le> rnd y"
proof (cases "ilog2 x = ilog2 y")
  case True
  from assms have y: "0 < y" by simp
  define E :: rat where "E = 2 powi (ilog2 x)"
  have E: "0 < E" by (simp add: E_def)
  have "x * 2 ^ 52 / E \<le> y * 2 ^ 52 / E"
    using assms(2) E by (simp add: field_simps)
  then have "rne (x * 2 ^ 52 / E) \<le> rne (y * 2 ^ 52 / E)" by (rule rne_mono)
  then have "(of_int (rne (x * 2 ^ 52 / E)) :: rat) \<le> of_int (rne (y * 2 ^ 52 / E))"
    by (simp only: of_int_le_iff)
  then have "of_int (rne (x * 2 ^ 52 / E)) * (E / 2 ^ 52) \<le> of_int (rne (y * 2 ^ 52 / E)) * (E / 2 ^ 52)"
    using E by (intro mult_right_mono) simp_all
  then show ?thesis
    unfolding rnd_pos_unfold [OF assms(1)] rnd_pos_unfold [OF y] True [symmetric] E_def .
next
  case False
  with ilog2_mono [OF assms] have "ilog2 x + 1 \<le> ilog2 y" by simp
  then have "(2::rat) powi (ilog2 x + 1) \<le> 2 powi (ilog2 y)"
    by (rule power_int_increasing) simp
  moreover from assms have "0 < y" by simp
  then have "2 powi (ilog2 y) \<le> rnd y" by (rule rnd_pos_range)
  moreover have "rnd x \<le> 2 * 2 powi (ilog2 x)" using assms(1) by (rule rnd_pos_range)
  ultimately show ?thesis by (simp add: powi_succ)
qed

lemma ilog2_minus: "ilog2 (- x) = ilog2 x"
  by (simp add: ilog2_def)

lemma rnd_minus: "rnd (- x) = - rnd x"
  by (simp add: rnd_def Let_def ilog2_minus rne_minus)

lemma rnd_zero: "rnd 0 = 0"
  by (simp add: rnd_def)

lemma rnd_pos:
  assumes "0 < x"
  shows "0 < rnd x"
proof -
  have "(0::rat) < 2 powi (ilog2 x)" by simp
  also have "\<dots> \<le> rnd x" using assms by (rule rnd_pos_range)
  finally show ?thesis .
qed

lemma rnd_mono:
  assumes "x \<le> y"
  shows "rnd x \<le> rnd y"
proof -
  consider "0 < x" | "x \<le> 0" "0 \<le> y" | "y < 0" by linarith
  then show ?thesis
  proof cases
    case 1
    then show ?thesis using assms by (rule rnd_mono_pos)
  next
    case 2
    have "rnd x \<le> 0"
    proof (cases "x = 0")
      case True then show ?thesis by (simp add: rnd_zero)
    next
      case False
      with 2 have "0 < - x" by simp
      then have "0 < rnd (- x)" by (rule rnd_pos)
      then show ?thesis by (simp add: rnd_minus)
    qed
    moreover have "0 \<le> rnd y"
    proof (cases "y = 0")
      case True then show ?thesis by (simp add: rnd_zero)
    next
      case False
      with 2 have "0 < y" by simp
      then have "0 < rnd y" by (rule rnd_pos)
      then show ?thesis by simp
    qed
    ultimately show ?thesis by simp
  next
    case 3
    with assms have "0 < - y" "- y \<le> - x" by simp_all
    then have "rnd (- y) \<le> rnd (- x)" by (rule rnd_mono_pos)
    then show ?thesis by (simp add: rnd_minus)
  qed
qed


section \<open>The rounding on examples\<close>

text \<open>
  The model evaluated on expressions of the script.  The right-hand sides are the values
  IEEE 754 binary64 arithmetic gives for them: the literals \<^verbatim>\<open>0.15\<close>, \<^verbatim>\<open>0.65\<close> and \<^verbatim>\<open>0.12\<close>, an
  opacity and a circle radius of the grid, the cell size \<^verbatim>\<open>64 / 3\<close> and the base angle of
  ray 7.
\<close>

lemma binary64_examples:
  "lit (15 / 100) = 5404319552844595 / 36028797018963968"
  "lit (65 / 100) = 5854679515581645 / 9007199254740992"
  "lit (12 / 100) = 1080863910568919 / 9007199254740992"
  "fadd (lit (25 / 100)) (fmul (fdiv (float_of_int 3970320736) (lit 4294967296)) (lit (65 / 100)))
     = 7663937760578765 / 9007199254740992"
  "fmul 32 (fadd (lit (12 / 100)) (fmul (fdiv (float_of_int 2501584181) (lit 4294967296)) (lit (35 / 100))))
     = 1458517352246149 / 140737488355328"
  "int_truediv 64 3 = Inr (6004799503160661 / 281474976710656)"
  "fdiv (fmul (fmul (float_of_int 2) math_pi) (float_of_int 7)) (float_of_int 40)
     = 1237991606604977 / 1125899906842624"
  by code_simp+


section \<open>Ranges of the drawn values\<close>

lemma rnd_consts:
  "rnd 4294967296 = 4294967296" "rnd 1 = 1" "rnd 4294967295 = 4294967295"
  "rnd (1 / 4294967296) = 1 / 4294967296" "rnd (4294967295 / 4294967296) = 4294967295 / 4294967296"
  by code_simp+

lemma lit_pos: "0 \<le> lit (65 / 100)" "0 \<le> lit (35 / 100)" "0 \<le> lit (4 / 10)" "0 \<le> lit (12 / 100)" "0 \<le> lit (7 / 10)"
  by code_simp+


lemma affine_bounds:
  assumes "lo \<le> a" "a \<le> hi" "0 \<le> c"
  shows "fadd k (fmul lo c) \<le> fadd k (fmul a c)" and "fadd k (fmul a c) \<le> fadd k (fmul hi c)"
proof -
  from assms have "lo * c \<le> a * c" "a * c \<le> hi * c" by (simp_all add: mult_right_mono)
  then have "rnd (lo * c) \<le> rnd (a * c)" "rnd (a * c) \<le> rnd (hi * c)" by (simp_all add: rnd_mono)
  then show "fadd k (fmul lo c) \<le> fadd k (fmul a c)" "fadd k (fmul a c) \<le> fadd k (fmul hi c)"
    by (simp_all add: fadd_def fmul_def rnd_mono)
qed

lemma next_u32_range:
  assumes "live g"
  shows "1 \<le> fst (next_u32 g)" and "fst (next_u32 g) \<le> 4294967295"
  using live_next [OF assms] by (simp_all add: live_def u32_def next_u32_def Let_def)

lemma rand01_range:
  assumes "live g"
  shows "1 / 4294967296 \<le> fst (rand01 g)" and "fst (rand01 g) \<le> 4294967295 / 4294967296"
proof -
  define u where "u = fst (next_u32 g)"
  have u: "1 \<le> u" "u \<le> 4294967295" using next_u32_range [OF assms] by (simp_all add: u_def)
  have r: "fst (rand01 g) = rnd (rnd (of_int u) / 4294967296)"
    by (simp add: rand01_def case_prod_beta fdiv_def float_of_int_def lit_def rnd_consts u_def)
  from u have "rnd 1 \<le> rnd (of_int u)" "rnd (of_int u) \<le> rnd 4294967295"
    by (simp_all add: rnd_mono)
  then have a: "1 / 4294967296 \<le> rnd (of_int u) / 4294967296"
    and b: "rnd (of_int u) / 4294967296 \<le> 4294967295 / 4294967296"
    by (simp_all add: rnd_consts)
  from rnd_mono [OF a] rnd_mono [OF b] show "1 / 4294967296 \<le> fst (rand01 g)" "fst (rand01 g) \<le> 4294967295 / 4294967296"
    by (simp_all add: r rnd_consts)
qed



lemma live_draws_k: "live g \<Longrightarrow> live (draws k g)"
  by (rule live_draws)



section \<open>Claim C6: opacity and circle radius of the grid shapes\<close>











section \<open>Evaluating the formatter\<close>

lemma digit_char_simps:
  "digit_char 0 = CHR ''0''" "digit_char 1 = CHR ''1''" "digit_char 2 = CHR ''2''"
  "digit_char 3 = CHR ''3''" "digit_char 4 = CHR ''4''" "digit_char 5 = CHR ''5''"
  "digit_char 6 = CHR ''6''" "digit_char 7 = CHR ''7''" "digit_char 8 = CHR ''8''"
  "digit_char 9 = CHR ''9''"
  by code_simp+
lemma digits_lt10: "n < 10 \<Longrightarrow> digits n = [digit_char n]"
  by (simp add: digits.simps)
lemma digits_ge10: "10 \<le> n \<Longrightarrow> digits n = digits (n div 10) @ [digit_char (n mod 10)]"
  by (subst digits.simps) simp
lemma digit_char_Suc_0: "digit_char (Suc 0) = CHR ''1''"
  using digit_char_simps(2) unfolding One_nat_def .

lemmas fmt_simps = f_def Let_def rne_def digits_lt10 digits_ge10 digit_char_simps
  digit_char_Suc_0 str_int_def

section \<open>The rays of the motif\<close>

lemma len_lo: "8 / 10 \<le> fadd (lit (8 / 10)) (fmul (1 / 4294967296) (lit (4 / 10)))"
  by code_simp
lemma len_hi: "fadd (lit (8 / 10)) (fmul (4294967295 / 4294967296) (lit (4 / 10))) \<le> 12 / 10"
  by code_simp
lemma jit_lo: "- (6 / 100) \<le> fmul (fsub (1 / 4294967296) (lit (1 / 2))) (lit (12 / 100))"
  by code_simp
lemma jit_hi: "fmul (fsub (4294967295 / 4294967296) (lit (1 / 2))) (lit (12 / 100)) \<le> 6 / 100"
  by code_simp

lemma fmul_commute: "fmul a b = fmul b a"
  by (simp add: fmul_def mult.commute)

lemma length_range:
  assumes "live g"
  shows "8 / 10 \<le> fadd (lit (8 / 10)) (fmul (lit (4 / 10)) (fst (rand01 g)))"
    and "fadd (lit (8 / 10)) (fmul (lit (4 / 10)) (fst (rand01 g))) \<le> 12 / 10"
  using affine_bounds [OF rand01_range [OF assms] lit_pos(3), of "lit (8 / 10)"] len_lo len_hi
  unfolding fmul_commute [of "lit (4 / 10)"] by linarith+

lemma jitter_range:
  assumes "live g"
  shows "- (6 / 100) \<le> fmul (fsub (fst (rand01 g)) (lit (1 / 2))) (lit (12 / 100))"
    and "fmul (fsub (fst (rand01 g)) (lit (1 / 2))) (lit (12 / 100)) \<le> 6 / 100"
proof -
  define j where "j = fst (rand01 g)"
  define c where "c = lit (12 / 100)"
  have c: "0 \<le> c" unfolding c_def by (rule lit_pos)
  from rand01_range [OF assms] have j: "1 / 4294967296 \<le> j" "j \<le> 4294967295 / 4294967296"
    by (simp_all add: j_def)
  then have "fsub (1 / 4294967296) (lit (1 / 2)) \<le> fsub j (lit (1 / 2))"
    "fsub j (lit (1 / 2)) \<le> fsub (4294967295 / 4294967296) (lit (1 / 2))"
    by (simp_all add: fsub_def rnd_mono)
  then have "fsub (1 / 4294967296) (lit (1 / 2)) * c \<le> fsub j (lit (1 / 2)) * c"
    "fsub j (lit (1 / 2)) * c \<le> fsub (4294967295 / 4294967296) (lit (1 / 2)) * c"
    using c by (simp_all add: mult_right_mono)
  then have "fmul (fsub (1 / 4294967296) (lit (1 / 2))) c \<le> fmul (fsub j (lit (1 / 2))) c"
    "fmul (fsub j (lit (1 / 2))) c \<le> fmul (fsub (4294967295 / 4294967296) (lit (1 / 2))) c"
    by (simp_all add: fmul_def rnd_mono)
  with jit_lo jit_hi show "- (6 / 100) \<le> fmul (fsub (fst (rand01 g)) (lit (1 / 2))) (lit (12 / 100))"
    "fmul (fsub (fst (rand01 g)) (lit (1 / 2))) (lit (12 / 100)) \<le> 6 / 100"
    unfolding j_def c_def by linarith+
qed

lemma ray_step_draws: "snd (ray_step P cx cy inner outer rays i g) = draws 6 g"
  by (simp add: ray_step_def Let_def case_prod_beta snd_rand01 snd_rgb snd_next_u32 draws_add
      del: draws.simps One_nat_def)

lemma ray_step_width:
  "r_width (fst (ray_step P cx cy inner outer rays i g)) = 1 + fst (next_u32 (draws 5 g)) mod 4"
  by (simp add: ray_step_def Let_def case_prod_beta snd_rand01 snd_rgb snd_next_u32 draws_add
      del: draws.simps One_nat_def)

lemma width_range: "1 + (k::int) mod 4 \<in> {1, 2, 3, 4}"
proof -
  have "0 \<le> k mod 4" "k mod 4 < 4" by simp_all
  then show ?thesis by auto
qed

lemma ray_step_in_spec:
  assumes "live g"
  shows "ray_in_spec P cx cy inner outer rays i (fst (ray_step P cx cy inner outer rays i g))"
proof -
  have l1: "live (draws 1 g)" using assms by (rule live_draws)
  show ?thesis
    using jitter_range [OF assms] length_range [OF l1] width_range
    by (auto simp add: ray_in_spec_def ray_step_def Let_def case_prod_beta snd_rand01
        simp del: draws.simps One_nat_def)
qed

lemma ray_loop_length: "length (fst (ray_loop P cx cy inner outer rays is g)) = length is"
  by (induction "is" arbitrary: g) (simp_all add: case_prod_beta Let_def)

lemma ray_loop_draws: "snd (ray_loop P cx cy inner outer rays is g) = draws (6 * length is) g"
proof (induction "is" arbitrary: g)
  case Nil
  show ?case by simp
next
  case (Cons i "is")
  show ?case
    using Cons.IH [of "draws 6 g"]
    by (simp add: case_prod_beta Let_def ray_step_draws draws_add del: draws.simps)
qed

lemma ray_loop_nth:
  "k < length is \<Longrightarrow>
   fst (ray_loop P cx cy inner outer rays is g) ! k
     = fst (ray_step P cx cy inner outer rays (is ! k) (draws (6 * k) g))"
proof (induction "is" arbitrary: g k)
  case Nil
  then show ?case by simp
next
  case (Cons i "is")
  show ?case
  proof (cases k)
    case 0
    then show ?thesis by (simp add: case_prod_beta Let_def)
  next
    case (Suc m)
    with Cons.prems have "m < length is" by simp
    from Cons.IH [OF this, of "draws 6 g"] Suc show ?thesis
      by (simp add: case_prod_beta Let_def ray_step_draws draws_add del: draws.simps)
  qed
qed

lemma py_range_nat: "py_range (int n) = map int [0..<n]"
  by (simp add: py_range_def)

lemma py_range_40: "length (py_range 40) = 40" "i < 40 \<Longrightarrow> py_range 40 ! i = int i"
  using py_range_nat [of 40] by simp_all

lemma small_floats: "float_of_int 1 = 1" "float_of_int 2 = 2" "float_of_int 3 = 3" "float_of_int 4 = 4"
  by code_simp+

lemma f_small:
  assumes "w \<in> {1, 2, 3, 4}"
  shows "f (float_of_int w) \<in> {''1.00'', ''2.00'', ''3.00'', ''4.00''}"
proof -
  have "f 1 = ''1.00''" "f 2 = ''2.00''" "f 3 = ''3.00''" "f 4 = ''4.00''"
    by (simp_all add: fmt_simps)
  with assms show ?thesis by (auto simp add: small_floats)
qed

lemma live_1: "live \<lparr>state = 1, calls = 0\<rparr>"
  by (simp add: live_def u32_def)

section \<open>Claim C4: the radial motif\<close>

text \<open>
  C4, as amended.  The radial motif emits exactly 40 ray lines and each ray consumes
  exactly 6 generator draws (one for the angle jitter, one for the length variation, three
  for the stroke colour, one for the stroke width), 240 in all.  Ray \<open>i\<close> runs from the
  inner radius (6% of the canvas) to an outer radius of 32% of the canvas times a factor
  between 0.8 and 1.2, at the evenly spaced angle \<open>2 \<pi> i / 40\<close> plus a jitter of at most
  0.06 radians either way.
\<close>

theorem motif_rays:
  assumes "live g" and "i < 40"
  shows "length (fst (motif P sz half g)) = 40
       \<and> snd (motif P sz half g) = draws (40 * 6) g
       \<and> calls (snd (motif P sz half g)) = calls g + 40 * 6
       \<and> fst (motif P sz half g) ! i
           = fst (ray_step P half half (fmul (float_of_int sz) (lit (6 / 100)))
                    (fmul (float_of_int sz) (lit (32 / 100))) 40 (int i) (draws (6 * i) g))
       \<and> snd (ray_step P half half (fmul (float_of_int sz) (lit (6 / 100)))
                    (fmul (float_of_int sz) (lit (32 / 100))) 40 (int i) (draws (6 * i) g))
           = draws (6 * i + 6) g
       \<and> ray_in_spec P half half (fmul (float_of_int sz) (lit (6 / 100)))
            (fmul (float_of_int sz) (lit (32 / 100))) 40 (int i) (fst (motif P sz half g) ! i)"
proof -
  define inner where "inner = fmul (float_of_int sz) (lit (6 / 100))"
  define outer where "outer = fmul (float_of_int sz) (lit (32 / 100))"
  have m: "motif P sz half g = ray_loop P half half inner outer 40 (py_range 40) g"
    by (simp add: motif_def Let_def inner_def outer_def)
  have n: "fst (motif P sz half g) ! i = fst (ray_step P half half inner outer 40 (int i) (draws (6 * i) g))"
    using ray_loop_nth [of i "py_range 40" P half half inner outer 40 g] assms(2)
    by (simp add: m py_range_40)
  have l: "live (draws (6 * i) g)" using assms(1) by (rule live_draws)
  have "ray_in_spec P half half inner outer 40 (int i) (fst (motif P sz half g) ! i)"
    unfolding n by (rule ray_step_in_spec [OF l])
  then show ?thesis
    using n by (simp add: m ray_loop_length ray_loop_draws py_range_40 calls_draws ray_step_draws
        draws_add inner_def outer_def del: draws.simps)
qed


theorem motif_rays_witness:
  "live \<lparr>state = 1, calls = 0\<rparr> \<and> (0::nat) < 40
   \<and> (length (fst (motif abc_platform 64 32 \<lparr>state = 1, calls = 0\<rparr>)) = 40
       \<and> snd (motif abc_platform 64 32 \<lparr>state = 1, calls = 0\<rparr>) = draws (40 * 6) \<lparr>state = 1, calls = 0\<rparr>
       \<and> calls (snd (motif abc_platform 64 32 \<lparr>state = 1, calls = 0\<rparr>)) = calls \<lparr>state = 1, calls = 0\<rparr> + 40 * 6
       \<and> fst (motif abc_platform 64 32 \<lparr>state = 1, calls = 0\<rparr>) ! 0
           = fst (ray_step abc_platform 32 32 (fmul (float_of_int 64) (lit (6 / 100)))
                    (fmul (float_of_int 64) (lit (32 / 100))) 40 (int 0) (draws (6 * 0) \<lparr>state = 1, calls = 0\<rparr>))
       \<and> snd (ray_step abc_platform 32 32 (fmul (float_of_int 64) (lit (6 / 100)))
                    (fmul (float_of_int 64) (lit (32 / 100))) 40 (int 0) (draws (6 * 0) \<lparr>state = 1, calls = 0\<rparr>))
           = draws (6 * 0 + 6) \<lparr>state = 1, calls = 0\<rparr>
       \<and> ray_in_spec abc_platform 32 32 (fmul (float_of_int 64) (lit (6 / 100)))
            (fmul (float_of_int 64) (lit (32 / 100))) 40 (int 0) (fst (motif abc_platform 64 32 \<lparr>state = 1, calls = 0\<rparr>) ! 0))"
proof -
  have h: "(0::nat) < 40" by simp
  from motif_rays [OF live_1 h, of abc_platform 64 32] live_1 h show ?thesis by blast
qed

text \<open>
  C4 as stated gives each ray exactly 4 draws.  The stroke colour alone takes three, so a
  ray takes 6 and the motif 240, not 160.
\<close>

theorem four_draws_per_ray_counterexample:
  "calls (snd (ray_step abc_platform 32 32 (fmul (float_of_int 64) (lit (6 / 100)))
                 (fmul (float_of_int 64) (lit (32 / 100))) 40 0 \<lparr>state = 1, calls = 0\<rparr>))
     \<noteq> calls \<lparr>state = 1, calls = 0\<rparr> + 4
   \<and> calls (snd (motif abc_platform 64 32 \<lparr>state = 1, calls = 0\<rparr>))
     \<noteq> calls \<lparr>state = 1, calls = 0\<rparr> + 40 * 4"
proof -
  have "calls (snd (motif abc_platform 64 32 \<lparr>state = 1, calls = 0\<rparr>)) = 240"
    by (simp add: motif_def Let_def ray_loop_draws py_range_40 calls_draws del: draws.simps)
  then show ?thesis
    by (simp add: ray_step_draws calls_draws del: draws.simps)
qed

section \<open>Claim C10: stroke width and stroke opacity of a ray\<close>

text \<open>
  C10.  For every emitted ray line the stroke width is 1 plus one generator draw (the
  sixth of the ray) modulo 4, hence one of 1, 2, 3, 4, printed as \<^verbatim>\<open>1.00\<close> to \<^verbatim>\<open>4.00\<close>, and
  the stroke opacity is the constant text \<^verbatim>\<open>0.8\<close>.
\<close>

theorem ray_stroke_width:
  assumes "i < 40"
  shows \<open>r_width (fst (motif P sz half g) ! i) = 1 + fst (next_u32 (draws (6 * i + 5) g)) mod 4
       \<and> r_width (fst (motif P sz half g) ! i) \<in> {1, 2, 3, 4}
       \<and> ray_svg (fst (motif P sz half g) ! i)
           = ''<line x1="'' @ f (r_x1 (fst (motif P sz half g) ! i))
             @ ''" y1="'' @ f (r_y1 (fst (motif P sz half g) ! i))
             @ ''" x2="'' @ f (r_x2 (fst (motif P sz half g) ! i))
             @ ''" y2="'' @ f (r_y2 (fst (motif P sz half g) ! i))
             @ ''" stroke="'' @ r_stroke (fst (motif P sz half g) ! i)
             @ ''" stroke-width="'' @ f (float_of_int (r_width (fst (motif P sz half g) ! i)))
             @ ''" stroke-opacity="0.8" stroke-linecap="round"/>''
       \<and> f (float_of_int (r_width (fst (motif P sz half g) ! i)))
           \<in> {''1.00'', ''2.00'', ''3.00'', ''4.00''}\<close>
proof -
  define inner where "inner = fmul (float_of_int sz) (lit (6 / 100))"
  define outer where "outer = fmul (float_of_int sz) (lit (32 / 100))"
  define l where "l = fst (motif P sz half g) ! i"
  have m: "motif P sz half g = ray_loop P half half inner outer 40 (py_range 40) g"
    by (simp add: motif_def Let_def inner_def outer_def)
  have n: "l = fst (ray_step P half half inner outer 40 (int i) (draws (6 * i) g))"
    using ray_loop_nth [of i "py_range 40" P half half inner outer 40 g] assms
    by (simp add: l_def m py_range_40)
  have w: "r_width l = 1 + fst (next_u32 (draws (6 * i + 5) g)) mod 4"
    unfolding n ray_step_width by (simp add: draws_add del: draws.simps)
  have r: "r_width l \<in> {1, 2, 3, 4}" unfolding w by (rule width_range)
  have \<open>ray_svg l = ''<line x1="'' @ f (r_x1 l) @ ''" y1="'' @ f (r_y1 l)
             @ ''" x2="'' @ f (r_x2 l) @ ''" y2="'' @ f (r_y2 l)
             @ ''" stroke="'' @ r_stroke l
             @ ''" stroke-width="'' @ f (float_of_int (r_width l))
             @ ''" stroke-opacity="0.8" stroke-linecap="round"/>''\<close>
    by (simp add: ray_svg_def)
  with w r f_small [OF r] show ?thesis unfolding l_def by simp
qed

theorem ray_stroke_width_witness:
  \<open>(0::nat) < 40
   \<and> (r_width (fst (motif abc_platform 64 32 \<lparr>state = 1, calls = 0\<rparr>) ! 0) = 1 + fst (next_u32 (draws (6 * 0 + 5) \<lparr>state = 1, calls = 0\<rparr>)) mod 4
       \<and> r_width (fst (motif abc_platform 64 32 \<lparr>state = 1, calls = 0\<rparr>) ! 0) \<in> {1, 2, 3, 4}
       \<and> ray_svg (fst (motif abc_platform 64 32 \<lparr>state = 1, calls = 0\<rparr>) ! 0)
           = ''<line x1="'' @ f (r_x1 (fst (motif abc_platform 64 32 \<lparr>state = 1, calls = 0\<rparr>) ! 0))
             @ ''" y1="'' @ f (r_y1 (fst (motif abc_platform 64 32 \<lparr>state = 1, calls = 0\<rparr>) ! 0))
             @ ''" x2="'' @ f (r_x2 (fst (motif abc_platform 64 32 \<lparr>state = 1, calls = 0\<rparr>) ! 0))
             @ ''" y2="'' @ f (r_y2 (fst (motif abc_platform 64 32 \<lparr>state = 1, calls = 0\<rparr>) ! 0))
             @ ''" stroke="'' @ r_stroke (fst (motif abc_platform 64 32 \<lparr>state = 1, calls = 0\<rparr>) ! 0)
             @ ''" stroke-width="'' @ f (float_of_int (r_width (fst (motif abc_platform 64 32 \<lparr>state = 1, calls = 0\<rparr>) ! 0)))
             @ ''" stroke-opacity="0.8" stroke-linecap="round"/>''
       \<and> f (float_of_int (r_width (fst (motif abc_platform 64 32 \<lparr>state = 1, calls = 0\<rparr>) ! 0)))
           \<in> {''1.00'', ''2.00'', ''3.00'', ''4.00''})\<close>
proof -
  have h: "(0::nat) < 40" by simp
  from ray_stroke_width [OF h, of abc_platform 64 32 "\<lparr>state = 1, calls = 0\<rparr>"] h
  show ?thesis by blast
qed


section \<open>When the build succeeds and when it raises\<close>

lemma rnd_nonneg: "0 \<le> x \<Longrightarrow> 0 \<le> rnd x"
  using rnd_mono [of 0 x] by (simp add: rnd_zero)

lemma rnd_abs: "\<bar>rnd x\<bar> = rnd \<bar>x\<bar>"
proof (cases "0 \<le> x")
  case True
  then show ?thesis by (simp add: rnd_nonneg)
next
  case False
  then have "0 \<le> - x" by simp
  then have "0 \<le> rnd (- x)" by (rule rnd_nonneg)
  with False show ?thesis by (simp add: rnd_minus)
qed

lemma overflows_rnd_mono:
  assumes "\<bar>x\<bar> \<le> \<bar>y\<bar>" and "\<not> overflows (rnd y)"
  shows "\<not> overflows (rnd x)"
proof -
  from assms(1) have "rnd \<bar>x\<bar> \<le> rnd \<bar>y\<bar>" by (rule rnd_mono)
  with assms(2) show ?thesis by (simp add: overflows_def rnd_abs)
qed

lemma quotient_le:
  fixes a b :: int
  assumes "b \<noteq> 0"
  shows "\<bar>(of_int a :: rat) / of_int b\<bar> \<le> \<bar>of_int a\<bar>"
proof -
  from assms have "1 \<le> \<bar>b\<bar>" by simp
  then have "(1::rat) \<le> \<bar>of_int b\<bar>" by (simp flip: of_int_abs)
  then have "\<bar>of_int a :: rat\<bar> / \<bar>of_int b\<bar> \<le> \<bar>of_int a\<bar> / 1"
    by (intro divide_left_mono) simp_all
  then show ?thesis by (simp add: abs_divide)
qed

lemma int_truediv_Inr:
  assumes "b \<noteq> 0" and "\<not> overflows (float_of_int a)"
  shows "int_truediv a b = Inr (rnd (of_int a / of_int b))"
  using assms overflows_rnd_mono [OF quotient_le [OF assms(1), of a]]
  by (simp add: int_truediv_def float_of_int_def)

lemma svg_parts_Inr:
  assumes "list_all encodable seed" and "cells \<noteq> 0" and "\<not> overflows (float_of_int sz)"
  shows "\<exists>bg shapes lines half col.
           svg_parts P seed sz cells
             = Inr ([svg_header sz, background_svg sz bg] @ map shape_svg shapes
                    @ map ray_svg lines @ [anchor_svg sz half col, ''</svg>''])"
proof -
  have 2: "int_truediv sz 2 = Inr (rnd (of_int sz / of_int 2))"
    using assms(3) by (intro int_truediv_Inr) simp_all
  show ?thesis
    using assms(1,3)
    by (simp add: svg_parts_def str_to_utf8_def int_truediv_Inr [OF assms(2,3)] 2
        checked_float_def Let_def case_prod_beta) blast
qed

lemma build_svg_Inr:
  assumes "list_all encodable seed" and "cells \<noteq> 0" and "\<not> overflows (float_of_int sz)"
  shows "\<exists>svg. build_svg P seed sz cells = Inr svg"
  using svg_parts_Inr [OF assms, of P] by (auto simp add: build_svg_def)

lemma build_svg_unencodable:
  "\<not> list_all encodable seed \<Longrightarrow> build_svg P seed sz cells = Inl UnicodeEncodeError"
  by (simp add: build_svg_def svg_parts_def str_to_utf8_def)

lemma build_svg_overflow:
  assumes "list_all encodable seed" and "cells \<noteq> 0"
    and "overflows (rnd (of_int sz / of_int cells))"
  shows "build_svg P seed sz cells = Inl OverflowError"
  using assms
  by (simp add: build_svg_def svg_parts_def str_to_utf8_def int_truediv_def Let_def case_prod_beta)


section \<open>Claim C9: validation\<close>

lemma abc_encodable: "list_all encodable [97, 98, 99]" "\<not> list_all encodable [97, 55296]"
  by (simp_all add: encodable_def)

lemma rnd_64: "rnd 64 = 64" "rnd 2 = 2"
  by code_simp+

lemma fits_64: "\<not> overflows (float_of_int 64)" "\<not> overflows (float_of_int 2)"
  by (simp_all add: overflows_def float_of_int_def rnd_64)

lemma rnd_ge_2_1024:
  assumes "2 ^ 1024 \<le> x"
  shows "2 ^ 1024 \<le> rnd x"
proof -
  from assms have x: "0 < x" by (rule less_le_trans [rotated]) simp
  have "1024 \<le> ilog2 x"
  proof (rule ccontr)
    assume "\<not> 1024 \<le> ilog2 x"
    then have "ilog2 x + 1 \<le> 1024" by simp
    then have "(2::rat) powi (ilog2 x + 1) \<le> 2 powi 1024"
      by (rule power_int_increasing) simp
    moreover from x ilog2_bounds [of x] have "x < 2 * 2 powi (ilog2 x)" by simp
    ultimately show False using assms by (simp add: powi_succ)
  qed
  then have "(2::rat) powi 1024 \<le> 2 powi (ilog2 x)"
    by (rule power_int_increasing) simp
  also have "\<dots> \<le> rnd x" using x by (rule rnd_pos_range)
  finally show ?thesis by simp
qed

lemma ten_400: "(2::int) ^ 1025 \<le> 10 ^ 400" "(64::int) \<le> 10 ^ 400"
proof -
  have "(2::int) ^ 1025 \<le> 2 ^ 1300" by (rule power_increasing) simp_all
  also have "\<dots> = (2 ^ 13) ^ 100" by (simp flip: power_mult)
  also have "\<dots> \<le> (10 ^ 4) ^ 100" by (rule power_mono) simp_all
  also have "\<dots> = 10 ^ 400" by (simp flip: power_mult)
  finally show 1: "(2::int) ^ 1025 \<le> 10 ^ 400" .
  have "(64::int) \<le> 10 ^ 2" by simp
  also have "\<dots> \<le> 10 ^ 400" by (rule power_increasing) simp_all
  finally show "(64::int) \<le> 10 ^ 400" .
qed

lemma too_large:
  assumes "2 ^ 1025 \<le> n"
  shows "overflows (rnd (of_int n / of_int 2))"
proof -
  from assms have "(of_int (2 ^ 1025) :: rat) \<le> of_int n" by (simp only: of_int_le_iff)
  then have "(2::rat) ^ 1024 \<le> of_int n / of_int 2" by simp
  then have "2 ^ 1024 \<le> rnd (of_int n / of_int 2)" by (rule rnd_ge_2_1024)
  then show ?thesis by (simp add: overflows_def)
qed

text \<open>
  C9.  \<^verbatim>\<open>main\<close> exits with \<^verbatim>\<open>SystemExit\<close> exactly when the canvas size is below 64 or the
  grid cell count is below 2, with the message of the failed check; it does so before
  anything is built, created or written, so the world is left as it was.  These are the only
  two validation errors.  Arguments that pass validation (size 64 with 2 cells among them)
  reach \<^verbatim>\<open>build_svg\<close>: when it returns, \<^verbatim>\<open>main\<close> creates the parent directory, writes the file
  and prints, and it does return when the seed can be encoded and size and cell count are
  within the range of a float.  When \<^verbatim>\<open>build_svg\<close> raises, the exception leaves \<^verbatim>\<open>main\<close> with the
  world unchanged and is not a \<^verbatim>\<open>SystemExit\<close>: \<^verbatim>\<open>UnicodeEncodeError\<close> for a seed with a lone
  surrogate, \<^verbatim>\<open>OverflowError\<close> when size / cells is too large for a float.
\<close>

theorem main_validation:
  "((a_size a < 64 \<or> a_cells a < 2) \<longleftrightarrow> (\<exists>m. fst (main P os a w) = SystemExit m))
   \<and> (a_size a < 64 \<longrightarrow> main P os a w = (SystemExit ''--size must be >= 64'', w))
   \<and> (\<not> a_size a < 64 \<and> a_cells a < 2 \<longrightarrow>
        main P os a w = (SystemExit ''--cells must be >= 2'', w))
   \<and> (\<not> a_size a < 64 \<and> \<not> a_cells a < 2 \<longrightarrow>
        main P os a w
          = (case build_svg P (a_seed a) (a_size a) (a_cells a) of
               Inl e \<Rightarrow> (Raised e, w)
             | Inr svg \<Rightarrow>
                (Returned,
                 print os (a_out a) (a_seed a)
                   (write_text os (a_out a) svg (mkdir_parent os (a_out a) w)))))
   \<and> (\<not> a_size a < 64 \<and> \<not> a_cells a < 2 \<and> list_all encodable (a_seed a)
        \<and> \<not> overflows (float_of_int (a_size a)) \<and> \<not> overflows (float_of_int (a_cells a)) \<longrightarrow>
        (\<exists>svg. build_svg P (a_seed a) (a_size a) (a_cells a) = Inr svg
           \<and> main P os a w
               = (Returned,
                  print os (a_out a) (a_seed a)
                    (write_text os (a_out a) svg (mkdir_parent os (a_out a) w)))))
   \<and> (\<not> a_size a < 64 \<and> \<not> a_cells a < 2 \<and> \<not> list_all encodable (a_seed a) \<longrightarrow>
        main P os a w = (Raised UnicodeEncodeError, w))
   \<and> (\<not> a_size a < 64 \<and> \<not> a_cells a < 2 \<and> list_all encodable (a_seed a)
        \<and> overflows (rnd (of_int (a_size a) / of_int (a_cells a))) \<longrightarrow>
        main P os a w = (Raised OverflowError, w))"
proof (cases "a_size a < 64 \<or> a_cells a < 2")
  case True
  then show ?thesis by (auto simp add: main_def)
next
  case False
  then have c: "a_cells a \<noteq> 0" by simp
  have 4: "main P os a w
          = (case build_svg P (a_seed a) (a_size a) (a_cells a) of
               Inl e \<Rightarrow> (Raised e, w)
             | Inr svg \<Rightarrow>
                (Returned,
                 print os (a_out a) (a_seed a)
                   (write_text os (a_out a) svg (mkdir_parent os (a_out a) w))))"
    using False by (simp add: main_def Let_def split: sum.splits)
  have 1: "\<not> (\<exists>m. fst (main P os a w) = SystemExit m)"
    unfolding 4 by (simp split: sum.splits)
  have 5: "\<exists>svg. build_svg P (a_seed a) (a_size a) (a_cells a) = Inr svg
           \<and> main P os a w
               = (Returned,
                  print os (a_out a) (a_seed a)
                    (write_text os (a_out a) svg (mkdir_parent os (a_out a) w)))"
    if "list_all encodable (a_seed a)" "\<not> overflows (float_of_int (a_size a))"
  proof -
    from build_svg_Inr [OF that(1) c that(2), of P]
    obtain svg where "build_svg P (a_seed a) (a_size a) (a_cells a) = Inr svg" ..
    then show ?thesis unfolding 4 by simp
  qed
  have 6: "main P os a w = (Raised UnicodeEncodeError, w)"
    if "\<not> list_all encodable (a_seed a)"
    unfolding 4 using build_svg_unencodable [OF that, of P "a_size a" "a_cells a"] by simp
  have 7: "main P os a w = (Raised OverflowError, w)"
    if "list_all encodable (a_seed a)" "overflows (rnd (of_int (a_size a) / of_int (a_cells a)))"
    unfolding 4 using build_svg_overflow [OF that(1) c that(2), of P] by simp
  from False 1 4 5 6 7 show ?thesis by blast
qed

theorem main_validation_witness:
  "fst (main abc_platform log_os
          \<lparr>a_seed = [97, 98, 99], a_out = ''out.svg'', a_size = 64, a_cells = 2\<rparr> []) = Returned
   \<and> length (snd (main abc_platform log_os
          \<lparr>a_seed = [97, 98, 99], a_out = ''out.svg'', a_size = 64, a_cells = 2\<rparr> [])) = 3
   \<and> main abc_platform log_os
          \<lparr>a_seed = [97, 98, 99], a_out = ''out.svg'', a_size = 63, a_cells = 2\<rparr> []
       = (SystemExit ''--size must be >= 64'', [])
   \<and> main abc_platform log_os
          \<lparr>a_seed = [97, 98, 99], a_out = ''out.svg'', a_size = 64, a_cells = 1\<rparr> []
       = (SystemExit ''--cells must be >= 2'', [])
   \<and> main abc_platform log_os
          \<lparr>a_seed = [97, 55296], a_out = ''out.svg'', a_size = 64, a_cells = 2\<rparr> []
       = (Raised UnicodeEncodeError, [])
   \<and> main abc_platform log_os
          \<lparr>a_seed = [97, 98, 99], a_out = ''out.svg'', a_size = 10 ^ 400, a_cells = 2\<rparr> []
       = (Raised OverflowError, [])"
proof -
  define big :: int where "big = 10 ^ 400"
  let ?ok = "\<lparr>a_seed = [97, 98, 99], a_out = ''out.svg'', a_size = 64, a_cells = 2\<rparr>"
  let ?small = "\<lparr>a_seed = [97, 98, 99], a_out = ''out.svg'', a_size = 63, a_cells = 2\<rparr>"
  let ?coarse = "\<lparr>a_seed = [97, 98, 99], a_out = ''out.svg'', a_size = 64, a_cells = 1\<rparr>"
  let ?surrogate = "\<lparr>a_seed = [97, 55296], a_out = ''out.svg'', a_size = 64, a_cells = 2\<rparr>"
  let ?huge = "\<lparr>a_seed = [97, 98, 99], a_out = ''out.svg'', a_size = big, a_cells = 2\<rparr>"
  have ok: "\<not> a_size ?ok < 64 \<and> \<not> a_cells ?ok < 2 \<and> list_all encodable (a_seed ?ok)
    \<and> \<not> overflows (float_of_int (a_size ?ok)) \<and> \<not> overflows (float_of_int (a_cells ?ok))"
    using abc_encodable fits_64 by simp
  from main_validation [of ?ok abc_platform log_os "[]", THEN conjunct2, THEN conjunct2,
      THEN conjunct2, THEN conjunct2, THEN conjunct1, THEN mp, OF ok]
  obtain svg where "main abc_platform log_os ?ok []
      = (Returned, print log_os (a_out ?ok) (a_seed ?ok)
           (write_text log_os (a_out ?ok) svg (mkdir_parent log_os (a_out ?ok) [])))"
    by (elim exE conjE)
  then have 1: "fst (main abc_platform log_os ?ok []) = Returned
      \<and> length (snd (main abc_platform log_os ?ok [])) = 3"
    by (simp add: log_os_def)
  have small: "a_size ?small < 64" by simp
  have 2: "main abc_platform log_os ?small [] = (SystemExit ''--size must be >= 64'', [])"
    by (rule main_validation [of ?small abc_platform log_os "[]", THEN conjunct2, THEN conjunct1,
        THEN mp, OF small])
  have coarse: "\<not> a_size ?coarse < 64 \<and> a_cells ?coarse < 2" by simp
  have 3: "main abc_platform log_os ?coarse [] = (SystemExit ''--cells must be >= 2'', [])"
    by (rule main_validation [of ?coarse abc_platform log_os "[]", THEN conjunct2, THEN conjunct2,
        THEN conjunct1, THEN mp, OF coarse])
  have surrogate: "\<not> a_size ?surrogate < 64 \<and> \<not> a_cells ?surrogate < 2
    \<and> \<not> list_all encodable (a_seed ?surrogate)"
    using abc_encodable by simp
  have 4: "main abc_platform log_os ?surrogate [] = (Raised UnicodeEncodeError, [])"
    by (rule main_validation [of ?surrogate abc_platform log_os "[]", THEN conjunct2,
        THEN conjunct2, THEN conjunct2, THEN conjunct2, THEN conjunct2, THEN conjunct1,
        THEN mp, OF surrogate])
  have bg: "2 ^ 1025 \<le> big" "64 \<le> big"
    unfolding big_def by (rule ten_400)+
  have huge: "\<not> a_size ?huge < 64 \<and> \<not> a_cells ?huge < 2 \<and> list_all encodable (a_seed ?huge)
    \<and> overflows (rnd (of_int (a_size ?huge) / of_int (a_cells ?huge)))"
    using abc_encodable bg(2) too_large [OF bg(1)] by simp
  have 5: "main abc_platform log_os ?huge [] = (Raised OverflowError, [])"
    by (rule main_validation [of ?huge abc_platform log_os "[]", THEN conjunct2,
        THEN conjunct2, THEN conjunct2, THEN conjunct2, THEN conjunct2, THEN conjunct2,
        THEN mp, OF huge])
  from 1 2 3 4 5 show ?thesis unfolding big_def by blast
qed

end
